theory Spec2Isabelle
  imports Main "HOL-Library.Sublist"
begin

section \<open>Credential record and expiry (oauth.ts)\<close>

text \<open>
  The interface \<open>OAuthTokens\<close> of types.ts. Optional members are options. Numbers are
  the integers that the token endpoint sends (seconds); \<open>created_at\<close> is the text that
  \<open>new Date().toISOString()\<close> wrote.
\<close>

record OAuthTokens =
  access_token :: string
  expires_in :: int
  refresh_token :: "string option"
  refresh_token_expires_in :: "int option"
  scope :: string
  token_type :: string
  created_at :: string

text \<open>
  \<open>new Date(s).getTime()\<close> is a function of the platform: milliseconds since the epoch,
  or NaN for a text that is no date. The functions below take it as the argument
  \<open>getTime\<close>, with \<open>None\<close> for NaN, and the reading of the clock \<open>Date.now()\<close> as the
  argument \<open>now\<close>. Every comparison with NaN is false.
\<close>

type_synonym date_parser = "string \<Rightarrow> int option"

definition isTokenExpired :: "date_parser \<Rightarrow> int \<Rightarrow> OAuthTokens \<Rightarrow> bool" where
  "isTokenExpired getTime now tokens =
     (case getTime (created_at tokens) of
        None \<Rightarrow> False
      | Some createdAt \<Rightarrow>
          (let expiresAt = createdAt + expires_in tokens * 1000
           in now \<ge> expiresAt - 5 * 60 * 1000))"

definition isTokenExpiringSoon :: "date_parser \<Rightarrow> int \<Rightarrow> OAuthTokens \<Rightarrow> bool" where
  "isTokenExpiringSoon getTime now tokens =
     (case getTime (created_at tokens) of
        None \<Rightarrow> False
      | Some createdAt \<Rightarrow>
          (let expiresAt = createdAt + expires_in tokens * 1000;
               sevenDaysFromNow = now + 7 * 24 * 60 * 60 * 1000
           in expiresAt \<le> sevenDaysFromNow))"

subsection \<open>The date format of \<open>toISOString\<close>\<close>

text \<open>
  For concrete runs, the time value of the 24 characters \<open>YYYY-MM-DDTHH:mm:ss.sssZ\<close>
  that \<open>toISOString\<close> writes. Other texts are left to the platform; here they give
  \<open>None\<close>.
\<close>

definition digit_of :: "char \<Rightarrow> nat option" where
  "digit_of c =
     (let n = (of_char c :: nat) in if 48 \<le> n \<and> n \<le> 57 then Some (n - 48) else None)"

fun digits_acc :: "nat \<Rightarrow> string \<Rightarrow> nat option" where
  "digits_acc acc [] = Some acc"
| "digits_acc acc (c # cs) =
     (case digit_of c of None \<Rightarrow> None | Some d \<Rightarrow> digits_acc (acc * 10 + d) cs)"

definition digits_val :: "string \<Rightarrow> nat option" where
  "digits_val cs = (if cs = [] then None else digits_acc 0 cs)"

definition is_leap :: "nat \<Rightarrow> bool" where
  "is_leap y = (y mod 4 = 0 \<and> (y mod 100 \<noteq> 0 \<or> y mod 400 = 0))"

definition days_in_month :: "nat \<Rightarrow> nat \<Rightarrow> nat" where
  "days_in_month y m =
     (if m = 2 then (if is_leap y then 29 else 28)
      else if m = 4 \<or> m = 6 \<or> m = 9 \<or> m = 11 then 30 else 31)"

definition days_from_civil :: "nat \<Rightarrow> nat \<Rightarrow> nat \<Rightarrow> int" where
  "days_from_civil y m d =
     (let y' = (if m \<le> 2 then int y - 1 else int y);
          era = y' div 400;
          yoe = y' - era * 400;
          mp = (if m > 2 then int m - 3 else int m + 9);
          doy = (153 * mp + 2) div 5 + int d - 1;
          doe = yoe * 365 + yoe div 4 - yoe div 100 + doy
      in era * 146097 + doe - 719468)"

definition toISOString_time :: date_parser where
  "toISOString_time s =
     (if length s = 24 \<and> s ! 4 = CHR ''-'' \<and> s ! 7 = CHR ''-'' \<and> s ! 10 = CHR ''T''
         \<and> s ! 13 = CHR '':'' \<and> s ! 16 = CHR '':'' \<and> s ! 19 = CHR ''.'' \<and> s ! 23 = CHR ''Z''
      then
        (case (digits_val (take 4 s), digits_val (take 2 (drop 5 s)),
               digits_val (take 2 (drop 8 s)), digits_val (take 2 (drop 11 s)),
               digits_val (take 2 (drop 14 s)), digits_val (take 2 (drop 17 s)),
               digits_val (take 3 (drop 20 s))) of
           (Some y, Some m, Some d, Some h, Some mi, Some sec, Some ms) \<Rightarrow>
             (if 1 \<le> m \<and> m \<le> 12 \<and> 1 \<le> d \<and> d \<le> days_in_month y m
                 \<and> h < 24 \<and> mi < 60 \<and> sec < 60
              then Some (((days_from_civil y m d * 24 + int h) * 60 + int mi) * 60000
                          + int sec * 1000 + int ms)
              else None)
         | _ \<Rightarrow> None)
      else None)"

text \<open>A record for concrete runs: the token of the tests, created at the start of 2024.\<close>

definition token3600 :: OAuthTokens where
  "token3600 = \<lparr>access_token = ''test-token'', expires_in = 3600, refresh_token = None,
     refresh_token_expires_in = None, scope = ''openid profile'', token_type = ''Bearer'',
     created_at = ''2024-01-01T00:00:00.000Z''\<rparr>"

section \<open>Callback listener (\<open>startCallbackServer\<close>, oauth.ts)\<close>

text \<open>
  The promise that \<open>startCallbackServer\<close> returns. \<open>resolve\<close> and \<open>reject\<close> settle a
  pending promise; on a settled promise they do nothing.
\<close>

datatype promise = Pending | Resolved string | Rejected string

definition resolve :: "string \<Rightarrow> promise \<Rightarrow> promise" where
  "resolve v p = (case p of Pending \<Rightarrow> Resolved v | _ \<Rightarrow> p)"

definition reject :: "string \<Rightarrow> promise \<Rightarrow> promise" where
  "reject reason p = (case p of Pending \<Rightarrow> Rejected reason | _ \<Rightarrow> p)"

text \<open>
  What the closure of \<open>startCallbackServer\<close> holds: the promise, the HTTP server
  (whether it listens, and how often \<open>server.close()\<close> has been called), and the timer
  of \<open>setTimeout\<close>, whose handle the code drops: there is no \<open>clearTimeout\<close>.
\<close>

record callback_server =
  promise :: promise
  listening :: bool
  close_calls :: nat
  timer_armed :: bool

definition server_close :: "callback_server \<Rightarrow> callback_server" where
  "server_close s = s\<lparr>listening := False, close_calls := close_calls s + 1\<rparr>"

text \<open>
  A request, as the handler reads it: the path and the four query parameters
  (\<open>searchParams.get\<close> gives null, here \<open>None\<close>, for an absent one).
\<close>

record http_request =
  pathname :: string
  q_code :: "string option"
  q_state :: "string option"
  q_error :: "string option"
  q_error_description :: "string option"

datatype page =
    AuthorizationFailed string
  | InvalidState
  | NoCode
  | AuthorizationSuccessful
  | NotFound

record http_reply =
  reply_status :: nat
  reply_page :: page

text \<open>A string or null is truthy when it is a string that is not empty.\<close>

fun truthy :: "string option \<Rightarrow> bool" where
  "truthy None = False"
| "truthy (Some s) = (s \<noteq> [])"

text \<open>\<open>a || b\<close> on strings or null, and the text that a template or \<open>new Error\<close> makes of one.\<close>

definition or_else :: "string option \<Rightarrow> string option \<Rightarrow> string option" where
  "or_else a b = (if truthy a then a else b)"

fun to_text :: "string option \<Rightarrow> string" where
  "to_text None = ''null''"
| "to_text (Some s) = s"

definition handle_request ::
  "string \<Rightarrow> http_request \<Rightarrow> callback_server \<Rightarrow> http_reply \<times> callback_server" where
  "handle_request expectedState req s =
     (if pathname req = ''/callback'' then
        (if truthy (q_error req) then
           (\<lparr>reply_status = 400,
              reply_page =
                AuthorizationFailed (to_text (or_else (q_error_description req) (q_error req)))\<rparr>,
            (server_close s)\<lparr>promise :=
               reject (to_text (or_else (q_error_description req) (q_error req))) (promise s)\<rparr>)
         else if q_state req \<noteq> Some expectedState then
           (\<lparr>reply_status = 400, reply_page = InvalidState\<rparr>,
            (server_close s)\<lparr>promise := reject ''Invalid state parameter'' (promise s)\<rparr>)
         else if \<not> truthy (q_code req) then
           (\<lparr>reply_status = 400, reply_page = NoCode\<rparr>,
            (server_close s)\<lparr>promise :=
               reject ''No authorization code received'' (promise s)\<rparr>)
         else
           (\<lparr>reply_status = 200, reply_page = AuthorizationSuccessful\<rparr>,
            (server_close s)\<lparr>promise := resolve (to_text (q_code req)) (promise s)\<rparr>))
      else (\<lparr>reply_status = 404, reply_page = NotFound\<rparr>, s))"

text \<open>
  The closure right after \<open>startCallbackServer\<close> has returned: the promise is pending, the
  timer is armed, and the server does not listen yet, because \<open>server.listen\<close> binds the
  port asynchronously.
\<close>

definition startCallbackServer :: callback_server where
  "startCallbackServer =
     \<lparr>promise = Pending, listening = False, close_calls = 0, timer_armed = True\<rparr>"


text \<open>
  The events of the event loop that reach the closure afterwards: a request, the timer
  going off (once, 5 minutes after the start), and a later \<open>error\<close> event of the server.
  The handler runs for every request that reaches the server, also for one that arrives,
  after \<open>server.close()\<close>, on a connection that was kept alive: it does not look at the
  state of the server. A request here has a URL that \<open>new URL\<close> can read.
\<close>

datatype event = Request http_request | TimerFires | ServerError string

fun deliver :: "string \<Rightarrow> callback_server \<Rightarrow> event \<Rightarrow> callback_server" where
  "deliver expectedState s (Request req) = snd (handle_request expectedState req s)"
| "deliver expectedState s TimerFires =
     (if timer_armed s
      then (server_close s)\<lparr>promise := reject ''Authorization timeout'' (promise s),
                            timer_armed := False\<rparr>
      else s)"
| "deliver expectedState s (ServerError err) = s\<lparr>promise := reject err (promise s)\<rparr>"






text \<open>Requests for concrete runs.\<close>

definition forged_request :: http_request where
  "forged_request = \<lparr>pathname = ''/callback'', q_code = Some ''attacker-code'',
     q_state = Some ''wrong'', q_error = None, q_error_description = None\<rparr>"

definition denied_request :: http_request where
  "denied_request = \<lparr>pathname = ''/callback'', q_code = Some ''attacker-code'',
     q_state = Some ''wrong'', q_error = Some ''access_denied'', q_error_description = None\<rparr>"

definition good_request :: http_request where
  "good_request = \<lparr>pathname = ''/callback'', q_code = Some ''abc123'',
     q_state = Some ''expected'', q_error = None, q_error_description = None\<rparr>"


section \<open>JavaScript values and JSON\<close>

text \<open>
  The values that pass through \<open>JSON.parse\<close> and \<open>JSON.stringify\<close>. A string is the
  list of the bytes of its UTF-8 form (a surrogate that stands alone has the three bytes
  that the same scheme gives it). An object is the list of its properties in insertion
  order. A number is \<open>Num n\<close> when it is the integer \<open>n\<close>, and otherwise \<open>Decimal s\<close>, where
  \<open>s\<close> is the text that \<open>String\<close> makes of it, as \<open>1.5\<close>, \<open>1e+21\<close> or \<open>Infinity\<close>. Integers
  are read and written in full at every size, so that what is written of an integer is
  read back as that integer; the platform keeps 53 bits of one above \<open>2^53\<close>, which shows
  in the text that \<open>String\<close> makes of it.
\<close>

datatype js =
    Undefined
  | Null
  | Bool bool
  | Num int
  | Str string
  | Arr "js list"
  | Obj "(string \<times> js) list"
  | Native string
  | Decimal string

datatype js_error =
    SyntaxError
  | TypeError
  | Error string

text \<open>
  \<open>Native f\<close> is the built-in function \<open>f\<close>. Reading a property: of \<open>undefined\<close> and
  \<open>null\<close> it throws a TypeError; an object gives the value of the property (the last
  one of that name) or \<open>undefined\<close>. Of the properties that this program reads
  (\<open>message\<close>, \<open>sub\<close>, \<open>value\<close>, \<open>asset\<close>, \<open>uploadMechanism\<close>, \<open>uploadUrl\<close> and the
  dotted names), the other values have one: \<open>sub\<close> of a string is the method
  \<open>String.prototype.sub\<close>.
\<close>

fun lookup_last :: "string \<Rightarrow> (string \<times> js) list \<Rightarrow> js" where
  "lookup_last k [] = Undefined"
| "lookup_last k ((k', v) # ps) =
     (if k = k' \<and> k \<notin> fst ` set ps then v else lookup_last k ps)"

fun get_prop :: "js \<Rightarrow> string \<Rightarrow> js_error + js" where
  "get_prop Undefined k = Inl TypeError"
| "get_prop Null k = Inl TypeError"
| "get_prop (Obj ps) k = Inr (lookup_last k ps)"
| "get_prop (Str s) k = Inr (if k = ''sub'' then Native ''sub'' else Undefined)"
| "get_prop v k = Inr Undefined"

text \<open>Truthiness: a number that is no integer is not zero.\<close>

fun js_truthy :: "js \<Rightarrow> bool" where
  "js_truthy Undefined = False"
| "js_truthy Null = False"
| "js_truthy (Bool b) = b"
| "js_truthy (Num n) = (n \<noteq> 0)"
| "js_truthy (Str s) = (s \<noteq> [])"
| "js_truthy v = True"

subsection \<open>Numbers and strings as text\<close>

definition digit_char :: "nat \<Rightarrow> char" where
  "digit_char d = char_of (48 + d)"

fun show_nat :: "nat \<Rightarrow> string" where
  "show_nat n = (if n < 10 then [digit_char n] else show_nat (n div 10) @ [digit_char (n mod 10)])"

declare show_nat.simps [simp del]

definition show_int :: "int \<Rightarrow> string" where
  "show_int i = (if i < 0 then CHR ''-'' # show_nat (nat (- i)) else show_nat (nat i))"

fun join :: "string \<Rightarrow> string list \<Rightarrow> string" where
  "join sep [] = []"
| "join sep [x] = x"
| "join sep (x # y # ys) = x @ sep @ join sep (y # ys)"

subsection \<open>Double precision\<close>

text \<open>
  The platform's numbers are the doubles: a mantissa below \<open>2^53\<close> times a power of two
  from \<open>2^-1074\<close> on, up to \<open>(2^53 - 1) * 2^971\<close>. \<open>nearest_double n d\<close> is the double
  nearest to the fraction \<open>n / d\<close> of two positive integers, the one with the even
  mantissa when two are equally near, and infinity from the middle between the largest
  double and \<open>2^1024\<close> on.
\<close>

definition round_half_even :: "int \<Rightarrow> int \<Rightarrow> int" where
  "round_half_even n d =
     (let q = n div d; r = n mod d
      in if 2 * r < d then q
         else if d < 2 * r then q + 1
         else if even q then q else q + 1)"

text \<open>The number of digits of \<open>n\<close> in base \<open>b\<close>, and the digits in base ten.\<close>

function digits_in :: "int \<Rightarrow> int \<Rightarrow> nat" where
  "digits_in b n = (if n \<le> 0 \<or> b < 2 then 0 else Suc (digits_in b (n div b)))"
  by pat_completeness auto
termination
  by (relation "measure (\<lambda>(b, n). nat n)") (auto simp: int_div_less_self)

declare digits_in.simps [simp del]

function decimal_digits :: "int \<Rightarrow> string" where
  "decimal_digits n =
     (if n < 10 then [digit_char (nat n)]
      else decimal_digits (n div 10) @ [digit_char (nat (n mod 10))])"
  by pat_completeness auto
termination
  by (relation "measure nat") (auto simp: int_div_less_self)

declare decimal_digits.simps [simp del]

text \<open>\<open>n * b^e\<close> as a fraction, and the largest \<open>l\<close> with \<open>b^l \<le> n / d\<close>.\<close>

definition times_power :: "int \<Rightarrow> int \<Rightarrow> int \<Rightarrow> int \<times> int" where
  "times_power b n e = (if 0 \<le> e then (n * b ^ nat e, 1) else (n, b ^ nat (- e)))"

definition floor_log :: "int \<Rightarrow> int \<Rightarrow> int \<Rightarrow> int" where
  "floor_log b n d =
     (let l = int (digits_in b n) - int (digits_in b d)
      in if (if 0 \<le> l then d * b ^ nat l \<le> n else d \<le> n * b ^ nat (- l)) then l else l - 1)"

datatype double = Finite int int | Infinite

definition nearest_double :: "int \<Rightarrow> int \<Rightarrow> double" where
  "nearest_double n d =
     (let q = max (floor_log 2 n d - 52) (- 1074);
          m = (if 0 \<le> q then round_half_even n (d * 2 ^ nat q)
               else round_half_even (n * 2 ^ nat (- q)) d);
          q' = (if m = 2 ^ 53 then q + 1 else q);
          m' = (if m = 2 ^ 53 then 2 ^ 52 else m)
      in if 971 < q' then Infinite else Finite m' q')"

text \<open>
  \<open>Number::toString\<close>: the digits are the fewest whose number, times a power of ten, is
  read as the double, and of those the nearest to the double. With \<open>k\<close> digits there are
  two numbers to try, the one below the double and the one above; 17 digits are always
  enough.
\<close>

definition candidate_ok :: "int \<Rightarrow> int \<Rightarrow> double \<Rightarrow> bool" where
  "candidate_ok s e x = (case times_power 10 s e of (n, d) \<Rightarrow> nearest_double n d = x)"

fun shortest :: "nat \<Rightarrow> int \<Rightarrow> int \<Rightarrow> int \<Rightarrow> int \<Rightarrow> double \<Rightarrow> (int \<times> int) option" where
  "shortest 0 k xn xd n x = None"
| "shortest (Suc fuel) k xn xd n x =
     (case times_power 10 xn (k - n) of
        (yn, yd') \<Rightarrow>
          (let yd = yd' * xd;
               lo = yn div yd;
               hi = lo + 1;
               lo_ok = candidate_ok lo (n - k) x;
               hi_ok = candidate_ok hi (n - k) x;
               nearer_lo = (2 * yn < (2 * lo + 1) * yd \<or> (2 * yn = (2 * lo + 1) * yd \<and> even lo))
           in if lo_ok \<and> (\<not> hi_ok \<or> nearer_lo) then Some (lo, n - k)
              else if hi_ok then Some (hi, n - k)
              else shortest fuel (k + 1) xn xd n x))"

definition strip_zeros :: "string \<Rightarrow> string" where
  "strip_zeros ds = rev (dropWhile (\<lambda>c. c = CHR ''0'') (rev ds))"

text \<open>The digits \<open>ds\<close> with the decimal point after the first \<open>n\<close> of them.\<close>

definition number_format :: "string \<Rightarrow> int \<Rightarrow> string" where
  "number_format ds n =
     (let k = int (length ds)
      in if k \<le> n \<and> n \<le> 21 then ds @ replicate (nat (n - k)) (CHR ''0'')
         else if 0 < n \<and> n \<le> 21 then take (nat n) ds @ ''.'' @ drop (nat n) ds
         else if - 6 < n \<and> n \<le> 0 then ''0.'' @ replicate (nat (- n)) (CHR ''0'') @ ds
         else (let e = (if n - 1 < 0 then ''-'' else ''+'') @ decimal_digits (abs (n - 1))
               in if k = 1 then ds @ ''e'' @ e
                  else take 1 ds @ ''.'' @ drop 1 ds @ ''e'' @ e))"

definition double_text :: "double \<Rightarrow> string" where
  "double_text x =
     (case x of
        Infinite \<Rightarrow> ''Infinity''
      | Finite m q \<Rightarrow>
          (if m = 0 then ''0''
           else (case times_power 2 m q of
                   (xn, xd) \<Rightarrow>
                     (case shortest 17 1 xn xd (floor_log 10 xn xd + 1) x of
                        None \<Rightarrow> []
                      | Some (s, e) \<Rightarrow>
                          number_format (strip_zeros (decimal_digits s))
                            (int (length (decimal_digits s)) + e)))))"

subsection \<open>Values as text\<close>

text \<open>
  The text that a template literal makes of a value. An integer up to \<open>2^53\<close> is written
  in full, a larger one as the double that the platform keeps of it.
\<close>

fun js_to_string :: "js \<Rightarrow> string" where
  "js_to_string Undefined = ''undefined''"
| "js_to_string Null = ''null''"
| "js_to_string (Bool b) = (if b then ''true'' else ''false'')"
| "js_to_string (Num n) =
     (if abs n \<le> 2 ^ 53 then show_int n
      else (if n < 0 then ''-'' else []) @ double_text (nearest_double (abs n) 1))"
| "js_to_string (Decimal s) = s"
| "js_to_string (Str s) = s"
| "js_to_string (Arr vs) =
     join '','' (map (\<lambda>v. if v = Undefined \<or> v = Null then [] else js_to_string v) vs)"
| "js_to_string (Obj ps) = ''[object Object]''"
| "js_to_string (Native f) = ''function '' @ f @ ''() { [native code] }''"

text \<open>
  A template literal throws a TypeError for a value that has no text: an object with a
  property \<open>toString\<close> of its own (in a value that \<open>JSON.parse\<close> made, that property is
  no function, and \<open>valueOf\<close> gives back the object), and an array that holds such a
  value.
\<close>

fun printable :: "js \<Rightarrow> bool"
  and printable_elements :: "js list \<Rightarrow> bool"
where
  "printable (Obj ps) = (''toString'' \<notin> set (map fst ps))"
| "printable (Arr vs) = printable_elements vs"
| "printable Undefined = True"
| "printable Null = True"
| "printable (Bool b) = True"
| "printable (Num n) = True"
| "printable (Str s) = True"
| "printable (Native f) = True"
| "printable (Decimal s) = True"
| "printable_elements [] = True"
| "printable_elements (v # vs) = (printable v \<and> printable_elements vs)"

definition template :: "js \<Rightarrow> js_error + string" where
  "template v = (if printable v then Inr (js_to_string v) else Inl TypeError)"

definition hex_char :: "nat \<Rightarrow> char" where
  "hex_char d = (if d < 10 then char_of (48 + d) else char_of (87 + d))"

definition hex_of :: "char \<Rightarrow> nat option" where
  "hex_of c =
     (let n = (of_char c :: nat)
      in if 48 \<le> n \<and> n \<le> 57 then Some (n - 48)
         else if 97 \<le> n \<and> n \<le> 102 then Some (n - 87)
         else if 65 \<le> n \<and> n \<le> 70 then Some (n - 55)
         else None)"

text \<open>
  \<open>QuoteJSONString\<close>: the two-character escapes, \<open>\u00XX\<close> for the other control
  characters; every other byte is written as it is (the platform writes a surrogate that
  stands alone as an escape, which reads back as the same string).
\<close>

definition escape_char :: "char \<Rightarrow> string" where
  "escape_char c =
     (if c = CHR 0x22 then [CHR 0x5C, CHR 0x22]
      else if c = CHR 0x5C then [CHR 0x5C, CHR 0x5C]
      else if c = CHR 0x08 then [CHR 0x5C, CHR ''b'']
      else if c = CHR 0x09 then [CHR 0x5C, CHR ''t'']
      else if c = CHR 0x0A then [CHR 0x5C, CHR ''n'']
      else if c = CHR 0x0C then [CHR 0x5C, CHR ''f'']
      else if c = CHR 0x0D then [CHR 0x5C, CHR ''r'']
      else if (of_char c :: nat) < 32 then
        [CHR 0x5C, CHR ''u'', CHR ''0'', CHR ''0'',
         hex_char ((of_char c :: nat) div 16), hex_char ((of_char c :: nat) mod 16)]
      else [c])"

definition quote :: "string \<Rightarrow> string" where
  "quote s = CHR 0x22 # concat (map escape_char s) @ [CHR 0x22]"

subsection \<open>\<open>JSON.stringify\<close>\<close>

text \<open>
  \<open>SerializeJSONProperty\<close> with the gap (the empty string, or two spaces for
  \<open>JSON.stringify(v, null, 2)\<close>) and the current indentation. \<open>None\<close> is the result
  \<open>undefined\<close>, for \<open>undefined\<close> and for a function: a property with that value is left
  out, an array element is written \<open>null\<close>.
\<close>

definition wrap :: "string \<Rightarrow> string \<Rightarrow> string \<Rightarrow> string \<Rightarrow> string list \<Rightarrow> string" where
  "wrap opening closing gap indent partial =
     (if partial = [] then opening @ closing
      else if gap = [] then opening @ join '','' partial @ closing
      else opening @ [CHR 0x0A] @ indent @ gap
           @ join ([CHR '','', CHR 0x0A] @ indent @ gap) partial
           @ [CHR 0x0A] @ indent @ closing)"

fun serialize :: "string \<Rightarrow> string \<Rightarrow> js \<Rightarrow> string option"
  and serialize_elements :: "string \<Rightarrow> string \<Rightarrow> js list \<Rightarrow> string list"
  and serialize_members :: "string \<Rightarrow> string \<Rightarrow> (string \<times> js) list \<Rightarrow> string list"
where
  "serialize gap indent Undefined = None"
| "serialize gap indent Null = Some ''null''"
| "serialize gap indent (Bool b) = Some (if b then ''true'' else ''false'')"
| "serialize gap indent (Num n) = Some (show_int n)"
| "serialize gap indent (Str s) = Some (quote s)"
| "serialize gap indent (Arr vs) =
     Some (wrap ''['' '']'' gap indent (serialize_elements gap (indent @ gap) vs))"
| "serialize gap indent (Obj ps) =
     Some (wrap ''{'' ''}'' gap indent (serialize_members gap (indent @ gap) ps))"
| "serialize gap indent (Native f) = None"
| "serialize gap indent (Decimal s) =
     Some (if s = ''Infinity'' \<or> s = ''-Infinity'' then ''null'' else s)"
| "serialize_elements gap indent [] = []"
| "serialize_elements gap indent (v # vs) =
     (case serialize gap indent v of None \<Rightarrow> ''null'' | Some t \<Rightarrow> t)
     # serialize_elements gap indent vs"
| "serialize_members gap indent [] = []"
| "serialize_members gap indent ((k, v) # ps) =
     (case serialize gap indent v of
        None \<Rightarrow> serialize_members gap indent ps
      | Some t \<Rightarrow>
          (quote k @ '':'' @ (if gap = [] then [] else '' '') @ t)
          # serialize_members gap indent ps)"

definition JSON_stringify :: "js \<Rightarrow> string option" where
  "JSON_stringify v = serialize [] [] v"

definition JSON_stringify_2 :: "js \<Rightarrow> string option" where
  "JSON_stringify_2 v = serialize ''  '' [] v"

subsection \<open>\<open>JSON.parse\<close>\<close>

definition is_ws :: "char \<Rightarrow> bool" where
  "is_ws c = (c = CHR '' '' \<or> c = CHR 0x09 \<or> c = CHR 0x0A \<or> c = CHR 0x0D)"

definition skip_ws :: "string \<Rightarrow> string" where
  "skip_ws cs = dropWhile is_ws cs"

definition is_digit :: "char \<Rightarrow> bool" where
  "is_digit c = (48 \<le> (of_char c :: nat) \<and> (of_char c :: nat) \<le> 57)"

definition unescape :: "char \<Rightarrow> char option" where
  "unescape e =
     (if e = CHR 0x22 then Some (CHR 0x22)
      else if e = CHR 0x5C then Some (CHR 0x5C)
      else if e = CHR ''/'' then Some (CHR ''/'')
      else if e = CHR ''b'' then Some (CHR 0x08)
      else if e = CHR ''f'' then Some (CHR 0x0C)
      else if e = CHR ''n'' then Some (CHR 0x0A)
      else if e = CHR ''r'' then Some (CHR 0x0D)
      else if e = CHR ''t'' then Some (CHR 0x09)
      else None)"

text \<open>
  The code unit that four hexadecimal digits write, and the bytes of a code point in
  UTF-8.
\<close>

definition hex4 :: "string \<Rightarrow> int option" where
  "hex4 ds =
     (case map hex_of ds of
        [Some a, Some b, Some c, Some d] \<Rightarrow>
          Some (((int a * 16 + int b) * 16 + int c) * 16 + int d)
      | _ \<Rightarrow> None)"

definition utf8 :: "int \<Rightarrow> string" where
  "utf8 c =
     (if c < 0x80 then [char_of c]
      else if c < 0x800 then [char_of (0xC0 + c div 64), char_of (0x80 + c mod 64)]
      else if c < 0x10000 then
        [char_of (0xE0 + c div 4096), char_of (0x80 + c div 64 mod 64), char_of (0x80 + c mod 64)]
      else
        [char_of (0xF0 + c div 262144), char_of (0x80 + c div 4096 mod 64),
         char_of (0x80 + c div 64 mod 64), char_of (0x80 + c mod 64)])"

text \<open>
  The low surrogate that an escape \<open>\uXXXX\<close> at the start of the text writes, if there is
  one: after the escape of a high surrogate, the two are one code point.
\<close>

definition low_surrogate :: "string \<Rightarrow> int option" where
  "low_surrogate cs =
     (if take 2 cs = [CHR 0x5C, CHR ''u''] then
        (case hex4 (take 4 (drop 2 cs)) of
           None \<Rightarrow> None
         | Some l \<Rightarrow> (if 0xDC00 \<le> l \<and> l \<le> 0xDFFF then Some l else None))
      else None)"

definition prepend :: "string \<Rightarrow> (string \<times> string) option \<Rightarrow> (string \<times> string) option" where
  "prepend cs r = (case r of None \<Rightarrow> None | Some (s, rest) \<Rightarrow> Some (cs @ s, rest))"

text \<open>The characters of a string after its opening quote, up to the closing quote.\<close>

fun parse_chars :: "string \<Rightarrow> (string \<times> string) option" where
  "parse_chars [] = None"
| "parse_chars (c # cs) =
     (if c = CHR 0x22 then Some ([], cs)
      else if c = CHR 0x5C then
        (case cs of
           [] \<Rightarrow> None
         | e # cs' \<Rightarrow>
             (if e = CHR ''u'' then
                (case hex4 (take 4 cs') of
                   None \<Rightarrow> None
                 | Some u \<Rightarrow>
                     (case (if 0xD800 \<le> u \<and> u \<le> 0xDBFF then low_surrogate (drop 4 cs')
                            else None) of
                        None \<Rightarrow> prepend (utf8 u) (parse_chars (drop 4 cs'))
                      | Some l \<Rightarrow>
                          prepend (utf8 (0x10000 + (u - 0xD800) * 0x400 + (l - 0xDC00)))
                            (parse_chars (drop 10 cs'))))
              else
                (case unescape e of
                   None \<Rightarrow> None
                 | Some ch \<Rightarrow> prepend [ch] (parse_chars cs'))))
      else if (of_char c :: nat) < 32 then None
      else prepend [c] (parse_chars cs))"

text \<open>
  A number: an optional minus sign, digits without a leading zero, then an optional
  fraction (a point and digits) and an optional exponent (\<open>e\<close> or \<open>E\<close>, an optional sign
  and digits).
\<close>

definition digits_value :: "string \<Rightarrow> int" where
  "digits_value ds = foldl (\<lambda>acc d. acc * 10 + (of_char d - 48)) 0 ds"

definition parse_digits :: "string \<Rightarrow> (int \<times> string) option" where
  "parse_digits cs =
     (let ds = takeWhile is_digit cs; rest = dropWhile is_digit cs
      in if ds = [] \<or> (length ds > 1 \<and> hd ds = CHR ''0'') then None
         else Some (digits_value ds, rest))"

definition continues_number :: "string \<Rightarrow> bool" where
  "continues_number rest =
     (case rest of [] \<Rightarrow> False | c # cs \<Rightarrow> c = CHR ''.'' \<or> c = CHR ''e'' \<or> c = CHR ''E'')"

definition parse_fraction :: "string \<Rightarrow> (string \<times> string) option" where
  "parse_fraction cs =
     (case cs of
        [] \<Rightarrow> Some ([], cs)
      | c # r \<Rightarrow>
          (if c = CHR ''.'' then
             (if takeWhile is_digit r = [] then None
              else Some (takeWhile is_digit r, dropWhile is_digit r))
           else Some ([], cs)))"

definition parse_exponent :: "string \<Rightarrow> (int \<times> string) option" where
  "parse_exponent cs =
     (case cs of
        [] \<Rightarrow> Some (0, cs)
      | c # r \<Rightarrow>
          (if c = CHR ''e'' \<or> c = CHR ''E'' then
             (let negative = (take 1 r = ''-'');
                  r' = (if take 1 r = ''-'' \<or> take 1 r = ''+'' then drop 1 r else r)
              in if takeWhile is_digit r' = [] then None
                 else Some ((if negative then - digits_value (takeWhile is_digit r')
                             else digits_value (takeWhile is_digit r')),
                            dropWhile is_digit r'))
           else Some (0, cs)))"

text \<open>
  The number \<open>m * 10^e\<close>, negative or not: an integer up to \<open>2^53\<close> is itself; every other
  one is the double that is nearest to it, which is zero when the number is too small.
\<close>

definition number_of :: "bool \<Rightarrow> int \<Rightarrow> int \<Rightarrow> js" where
  "number_of negative m e =
     (case times_power 10 m e of
        (n, d) \<Rightarrow>
          (if n mod d = 0 \<and> n div d \<le> 2 ^ 53
           then Num (if negative then - (n div d) else n div d)
           else (case nearest_double n d of
                   Infinite \<Rightarrow> Decimal ((if negative then ''-'' else []) @ ''Infinity'')
                 | Finite x q \<Rightarrow>
                     (if x = 0 then Num 0
                      else Decimal ((if negative then ''-'' else [])
                                    @ double_text (Finite x q))))))"

definition parse_decimal :: "bool \<Rightarrow> int \<Rightarrow> string \<Rightarrow> (js \<times> string) option" where
  "parse_decimal negative n cs =
     (case parse_fraction cs of
        None \<Rightarrow> None
      | Some (fs, r1) \<Rightarrow>
          (case parse_exponent r1 of
             None \<Rightarrow> None
           | Some (e, r2) \<Rightarrow>
               Some (number_of negative (n * 10 ^ length fs + digits_value fs)
                       (e - int (length fs)), r2)))"

definition parse_number :: "string \<Rightarrow> (js \<times> string) option" where
  "parse_number cs =
     (case cs of
        [] \<Rightarrow> None
      | c # r \<Rightarrow>
          (if c = CHR ''-'' then
             (case parse_digits r of
                None \<Rightarrow> None
              | Some (n, rest) \<Rightarrow>
                  (if continues_number rest then parse_decimal True n rest
                   else Some (Num (- n), rest)))
           else
             (case parse_digits cs of
                None \<Rightarrow> None
              | Some (n, rest) \<Rightarrow>
                  (if continues_number rest then parse_decimal False n rest
                   else Some (Num n, rest)))))"

definition parse_literal :: "string \<Rightarrow> js \<Rightarrow> string \<Rightarrow> (js \<times> string) option" where
  "parse_literal word v cs =
     (if take (length word) cs = word then Some (v, drop (length word) cs) else None)"

text \<open>
  The recursive descent, with fuel for the nesting: every call passes on less fuel, and
  \<open>JSON_parse\<close> starts with more than the text can use up.
\<close>

fun parse_value :: "nat \<Rightarrow> string \<Rightarrow> (js \<times> string) option"
  and parse_elements :: "nat \<Rightarrow> string \<Rightarrow> (js list \<times> string) option"
  and parse_members :: "nat \<Rightarrow> string \<Rightarrow> ((string \<times> js) list \<times> string) option"
where
  "parse_value 0 cs = None"
| "parse_value (Suc n) cs =
     (case skip_ws cs of
        [] \<Rightarrow> None
      | c # r \<Rightarrow>
          (if c = CHR ''{'' then
             (case skip_ws r of
                [] \<Rightarrow> None
              | c' # r' \<Rightarrow>
                  (if c' = CHR ''}'' then Some (Obj [], r')
                   else (case parse_members n r of
                           None \<Rightarrow> None
                         | Some (ps, rest) \<Rightarrow> Some (Obj ps, rest))))
           else if c = CHR ''['' then
             (case skip_ws r of
                [] \<Rightarrow> None
              | c' # r' \<Rightarrow>
                  (if c' = CHR '']'' then Some (Arr [], r')
                   else (case parse_elements n r of
                           None \<Rightarrow> None
                         | Some (vs, rest) \<Rightarrow> Some (Arr vs, rest))))
           else if c = CHR 0x22 then
             (case parse_chars r of None \<Rightarrow> None | Some (s, rest) \<Rightarrow> Some (Str s, rest))
           else if c = CHR ''t'' then parse_literal ''true'' (Bool True) (c # r)
           else if c = CHR ''f'' then parse_literal ''false'' (Bool False) (c # r)
           else if c = CHR ''n'' then parse_literal ''null'' Null (c # r)
           else parse_number (c # r)))"
| "parse_elements 0 cs = None"
| "parse_elements (Suc n) cs =
     (case parse_value n cs of
        None \<Rightarrow> None
      | Some (v, r) \<Rightarrow>
          (case skip_ws r of
             [] \<Rightarrow> None
           | c # r' \<Rightarrow>
               (if c = CHR '','' then
                  (case parse_elements n r' of
                     None \<Rightarrow> None
                   | Some (vs, rest) \<Rightarrow> Some (v # vs, rest))
                else if c = CHR '']'' then Some ([v], r')
                else None)))"
| "parse_members 0 cs = None"
| "parse_members (Suc n) cs =
     (case skip_ws cs of
        [] \<Rightarrow> None
      | q # r \<Rightarrow>
          (if q \<noteq> CHR 0x22 then None
           else
             (case parse_chars r of
                None \<Rightarrow> None
              | Some (k, r1) \<Rightarrow>
                  (case skip_ws r1 of
                     [] \<Rightarrow> None
                   | c # r2 \<Rightarrow>
                       (if c \<noteq> CHR '':'' then None
                        else
                          (case parse_value n r2 of
                             None \<Rightarrow> None
                           | Some (v, r3) \<Rightarrow>
                               (case skip_ws r3 of
                                  [] \<Rightarrow> None
                                | c' # r4 \<Rightarrow>
                                    (if c' = CHR '','' then
                                       (case parse_members n r4 of
                                          None \<Rightarrow> None
                                        | Some (ps, rest) \<Rightarrow> Some ((k, v) # ps, rest))
                                     else if c' = CHR ''}'' then Some ([(k, v)], r4)
                                     else None))))))))"

definition JSON_parse :: "string \<Rightarrow> js_error + js" where
  "JSON_parse text =
     (case parse_value (2 * length text + 2) text of
        None \<Rightarrow> Inl SyntaxError
      | Some (v, rest) \<Rightarrow> (if skip_ws rest = [] then Inr v else Inl SyntaxError))"

subsection \<open>The document of a value\<close>

text \<open>
  The document that \<open>JSON.stringify\<close> writes: the value without the properties that
  are \<open>undefined\<close> or functions, and with \<open>null\<close> for such elements of arrays.
\<close>

fun jsonify :: "js \<Rightarrow> js"
  and jsonify_elements :: "js list \<Rightarrow> js list"
  and jsonify_members :: "(string \<times> js) list \<Rightarrow> (string \<times> js) list"
where
  "jsonify (Arr vs) = Arr (jsonify_elements vs)"
| "jsonify (Obj ps) = Obj (jsonify_members ps)"
| "jsonify Undefined = Undefined"
| "jsonify Null = Null"
| "jsonify (Bool b) = Bool b"
| "jsonify (Num n) = Num n"
| "jsonify (Str s) = Str s"
| "jsonify (Native f) = Native f"
| "jsonify (Decimal s) = (if s = ''Infinity'' \<or> s = ''-Infinity'' then Null else Decimal s)"
| "jsonify_elements [] = []"
| "jsonify_elements (v # vs) =
     (case v of Undefined \<Rightarrow> Null | Native f \<Rightarrow> Null | _ \<Rightarrow> jsonify v) # jsonify_elements vs"
| "jsonify_members [] = []"
| "jsonify_members ((k, v) # ps) =
     (case v of
        Undefined \<Rightarrow> jsonify_members ps
      | Native f \<Rightarrow> jsonify_members ps
      | _ \<Rightarrow> (k, jsonify v) # jsonify_members ps)"

text \<open>A value all of whose numbers are integers.\<close>

fun whole :: "js \<Rightarrow> bool"
  and whole_elements :: "js list \<Rightarrow> bool"
  and whole_members :: "(string \<times> js) list \<Rightarrow> bool"
where
  "whole (Arr vs) = whole_elements vs"
| "whole (Obj ps) = whole_members ps"
| "whole (Decimal s) = False"
| "whole Undefined = True"
| "whole Null = True"
| "whole (Bool b) = True"
| "whole (Num n) = True"
| "whole (Str s) = True"
| "whole (Native f) = True"
| "whole_elements [] = True"
| "whole_elements (v # vs) = (whole v \<and> whole_elements vs)"
| "whole_members [] = True"
| "whole_members ((k, v) # ps) = (whole v \<and> whole_members ps)"

subsection \<open>Shapes of text, for the proofs about the parser\<close>

text \<open>
  White space only; a text that ends a number before it (the end, white space, a comma
  or a closing bracket); a text that starts like a value.
\<close>

definition blank :: "string \<Rightarrow> bool" where
  "blank W = (\<forall>c \<in> set W. is_ws c)"

definition ends_number :: "string \<Rightarrow> bool" where
  "ends_number rest =
     (case rest of [] \<Rightarrow> True
      | c # cs \<Rightarrow> is_ws c \<or> c = CHR '','' \<or> c = CHR ''}'' \<or> c = CHR '']'')"

definition starts_value :: "string \<Rightarrow> bool" where
  "starts_value t = (\<exists>c cs. t = c # cs \<and> \<not> is_ws c \<and> c \<noteq> CHR '']'' \<and> c \<noteq> CHR ''}'')"

section \<open>API client (client.ts)\<close>

subsection \<open>The network, the disk and asynchronous functions\<close>

datatype http_method = GET | POST | PUT | DELETE

record fetch_call =
  call_url :: string
  call_method :: http_method
  call_headers :: "(string \<times> string) list"
  call_body :: "string option"

record fetch_response =
  status :: int
  statusText :: string
  body_text :: string

definition ok :: "fetch_response \<Rightarrow> bool" where
  "ok response = (200 \<le> status response \<and> status response \<le> 299)"

datatype fetch_result = Responds fetch_response | NetworkFailure

text \<open>
  The world of a run: the calls of \<open>fetch\<close> so far, each with the answer it got, in
  order; what the network will answer to the calls to come, in order (when the list is
  used up, the network is down); the files that \<open>fs\<close> can read, by path; the variable
  \<open>HOME\<close>.
\<close>

record world =
  exchanges :: "(fetch_call \<times> fetch_result) list"
  upstream :: "fetch_result list"
  disk :: "(string \<times> string) list"
  env_HOME :: "string option"

text \<open>
  An asynchronous function runs in the world and either throws or returns. \<open>await\<close>
  runs the rest only after a return; a throw ends the enclosing function.
\<close>

type_synonym 'a async = "world \<Rightarrow> (js_error + 'a) \<times> world"

definition return :: "'a \<Rightarrow> 'a async" where
  "return x w = (Inr x, w)"

definition throw :: "js_error \<Rightarrow> 'a async" where
  "throw e w = (Inl e, w)"

definition await :: "'a async \<Rightarrow> ('a \<Rightarrow> 'b async) \<Rightarrow> 'b async" where
  "await m k w = (case m w of (Inl e, w') \<Rightarrow> (Inl e, w') | (Inr x, w') \<Rightarrow> k x w')"

text \<open>
  \<open>fetch\<close> rejects with a TypeError when the network fails; a call that it refuses
  before sending (a text that is no URL) counts as such a failure.
\<close>

definition fetch :: "fetch_call \<Rightarrow> fetch_response async" where
  "fetch call w =
     (case upstream w of
        [] \<Rightarrow> (Inl TypeError, w\<lparr>exchanges := exchanges w @ [(call, NetworkFailure)]\<rparr>)
      | NetworkFailure # rs \<Rightarrow>
          (Inl TypeError,
           w\<lparr>exchanges := exchanges w @ [(call, NetworkFailure)], upstream := rs\<rparr>)
      | Responds response # rs \<Rightarrow>
          (Inr response,
           w\<lparr>exchanges := exchanges w @ [(call, Responds response)], upstream := rs\<rparr>))"

definition startsWith :: "string \<Rightarrow> string \<Rightarrow> bool" where
  "startsWith p s = (take (length p) s = p)"

subsection \<open>Options of a post\<close>

record CreatePostOptions =
  post_text :: string
  visibility :: "string option"
  mediaUrls :: "string list option"
  articleUrl :: "string option"
  articleTitle :: "string option"
  articleDescription :: "string option"

subsection \<open>Reading the image\<close>

definition isLocalPath :: "string \<Rightarrow> bool" where
  "isLocalPath str =
     (startsWith ''/'' str \<or> startsWith ''./'' str \<or> startsWith ''../'' str \<or> startsWith ''~'' str)"

text \<open>\<open>path.join\<close> of two texts, up to the normalisation of dots and slashes.\<close>

definition path_join :: "string \<Rightarrow> string \<Rightarrow> string" where
  "path_join a b =
     (if a = [] then b
      else if b = [] then a
      else if startsWith ''/'' b then a @ b
      else a @ ''/'' @ b)"

text \<open>The path that \<open>getImageBuffer\<close> reads: \<open>~\<close> stands for \<open>HOME\<close>, or for nothing.\<close>

definition expand_home :: "string option \<Rightarrow> string \<Rightarrow> string" where
  "expand_home home source =
     (if startsWith ''~'' source
      then path_join (to_text (or_else home (Some []))) (drop 1 source)
      else source)"

definition getImageBuffer :: "string \<Rightarrow> string async" where
  "getImageBuffer source w =
     (if isLocalPath source then
        (let filePath = expand_home (env_HOME w) source
         in case map_of (disk w) filePath of
              None \<Rightarrow> throw (Error (''File not found: '' @ filePath)) w
            | Some buffer \<Rightarrow> return buffer w)
      else
        await (fetch \<lparr>call_url = source, call_method = GET, call_headers = [],
                      call_body = None\<rparr>)
          (\<lambda>response.
             if \<not> ok response
             then throw (Error (''Failed to fetch image: '' @ statusText response))
             else return (body_text response)) w)"

subsection \<open>The client\<close>

definition API_BASE :: string where
  "API_BASE = ''https://api.linkedin.com/v2''"

definition USERINFO_URL :: string where
  "USERINFO_URL = ''https://api.linkedin.com/v2/userinfo''"

text \<open>
  \<open>request\<close>, with the client's tokens as first argument. In the \<open>catch\<close> the error
  is \<open>{status, message: errorText}\<close>, whose \<open>message || errorText\<close> is \<open>errorText\<close>.
\<close>

definition request :: "OAuthTokens \<Rightarrow> string \<Rightarrow> http_method \<Rightarrow> string option \<Rightarrow> js async" where
  "request tokens endpoint method body =
     (let url = (if startsWith ''http'' endpoint then endpoint else API_BASE @ endpoint)
      in await (fetch \<lparr>call_url = url, call_method = method,
                        call_headers =
                          [(''Authorization'', ''Bearer '' @ access_token tokens),
                           (''Content-Type'', ''application/json''),
                           (''X-Restli-Protocol-Version'', ''2.0.0''),
                           (''LinkedIn-Version'', ''202401'')],
                        call_body = body\<rparr>)
           (\<lambda>response.
              if \<not> ok response then
                (let errorText = body_text response
                 in case JSON_parse errorText of
                      Inl e \<Rightarrow>
                        throw (Error (''LinkedIn API Error ('' @ show_int (status response)
                                      @ ''): '' @ errorText))
                    | Inr error \<Rightarrow>
                        (case get_prop error ''message'' of
                           Inl e \<Rightarrow> throw e
                         | Inr message \<Rightarrow>
                             (case (if js_truthy message then template message
                                    else Inr errorText) of
                                Inl e \<Rightarrow> throw e
                              | Inr shown \<Rightarrow>
                                  throw (Error (''LinkedIn API Error (''
                                           @ show_int (status response) @ ''): '' @ shown)))))
              else
                (let text = body_text response
                 in if text = [] then return (Obj [])
                    else (case JSON_parse text of
                            Inl e \<Rightarrow> throw e
                          | Inr v \<Rightarrow> return v))))"

definition getProfile :: "OAuthTokens \<Rightarrow> js async" where
  "getProfile tokens = request tokens USERINFO_URL GET None"

definition getMemberUrn :: "OAuthTokens \<Rightarrow> string async" where
  "getMemberUrn tokens =
     await (getProfile tokens)
       (\<lambda>profile. case get_prop profile ''sub'' of
                     Inl e \<Rightarrow> throw e
                   | Inr sub \<Rightarrow>
                       (case template sub of
                          Inl e \<Rightarrow> throw e
                        | Inr shown \<Rightarrow> return (''urn:li:person:'' @ shown)))"

text \<open>\<open>x ? {text: x} : undefined\<close>\<close>

definition text_or_undefined :: "string option \<Rightarrow> js" where
  "text_or_undefined x = (if truthy x then Obj [(''text'', Str (to_text x))] else Undefined)"

text \<open>
  The payload of \<open>createPost\<close> as it stands when it is serialized: built with category
  \<open>NONE\<close>, then, when \<open>articleUrl\<close> is truthy, given category \<open>ARTICLE\<close> (in place) and
  the property \<open>media\<close> (at the end).
\<close>

definition createPost_payload :: "string \<Rightarrow> CreatePostOptions \<Rightarrow> js" where
  "createPost_payload authorUrn options =
     Obj [(''author'', Str authorUrn),
          (''lifecycleState'', Str ''PUBLISHED''),
          (''visibility'',
             Obj [(''com.linkedin.ugc.MemberNetworkVisibility'',
                   Str (to_text (or_else (visibility options) (Some ''PUBLIC''))))]),
          (''specificContent'',
             Obj [(''com.linkedin.ugc.ShareContent'',
                   Obj ([(''shareCommentary'', Obj [(''text'', Str (post_text options))]),
                         (''shareMediaCategory'',
                            Str (if truthy (articleUrl options) then ''ARTICLE'' else ''NONE''))]
                        @ (if truthy (articleUrl options) then
                             [(''media'',
                               Arr [Obj [(''status'', Str ''READY''),
                                         (''originalUrl'', Str (to_text (articleUrl options))),
                                         (''title'', text_or_undefined (articleTitle options)),
                                         (''description'',
                                            text_or_undefined (articleDescription options))]])]
                           else [])))])]"

definition createPost :: "OAuthTokens \<Rightarrow> CreatePostOptions \<Rightarrow> js async" where
  "createPost tokens options =
     await (getMemberUrn tokens)
       (\<lambda>authorUrn.
          request tokens ''/ugcPosts'' POST (JSON_stringify (createPost_payload authorUrn options)))"

definition registerImageUpload :: "OAuthTokens \<Rightarrow> string \<Rightarrow> js async" where
  "registerImageUpload tokens ownerUrn =
     request tokens ''/assets?action=registerUpload'' POST
       (JSON_stringify
          (Obj [(''registerUploadRequest'',
                 Obj [(''recipes'', Arr [Str ''urn:li:digitalmediaRecipe:feedshare-image'']),
                      (''owner'', Str ownerUrn),
                      (''serviceRelationships'',
                         Arr [Obj [(''relationshipType'', Str ''OWNER''),
                                   (''identifier'', Str ''urn:li:userGeneratedContent'')]])])]))"

text \<open>A chain of property reads; the first that throws ends it.\<close>

fun get_path :: "js \<Rightarrow> string list \<Rightarrow> js_error + js" where
  "get_path v [] = Inr v"
| "get_path v (k # ks) = (case get_prop v k of Inl e \<Rightarrow> Inl e | Inr v' \<Rightarrow> get_path v' ks)"

definition lift :: "js_error + 'a \<Rightarrow> 'a async" where
  "lift r = (case r of Inl e \<Rightarrow> throw e | Inr x \<Rightarrow> return x)"

definition image_payload :: "string \<Rightarrow> CreatePostOptions \<Rightarrow> js \<Rightarrow> js" where
  "image_payload authorUrn options asset =
     Obj [(''author'', Str authorUrn),
          (''lifecycleState'', Str ''PUBLISHED''),
          (''visibility'',
             Obj [(''com.linkedin.ugc.MemberNetworkVisibility'',
                   Str (to_text (or_else (visibility options) (Some ''PUBLIC''))))]),
          (''specificContent'',
             Obj [(''com.linkedin.ugc.ShareContent'',
                   Obj [(''shareCommentary'', Obj [(''text'', Str (post_text options))]),
                        (''shareMediaCategory'', Str ''IMAGE''),
                        (''media'', Arr [Obj [(''status'', Str ''READY''),
                                              (''media'', asset)]])])])]"

text \<open>
  \<open>createImagePost\<close>: the member's URN, then step 1 (register the upload), step 2 (get
  the image), step 3 (PUT it to the upload URL), step 4 (create the post). \<open>fetch\<close>
  makes a text of the URL it is given.
\<close>

definition createImagePost :: "OAuthTokens \<Rightarrow> CreatePostOptions \<Rightarrow> string \<Rightarrow> js async" where
  "createImagePost tokens options imageUrl =
     await (getMemberUrn tokens)
       (\<lambda>authorUrn.
     await (registerImageUpload tokens authorUrn)
       (\<lambda>registerResponse.
     await (lift (get_path registerResponse
              [''value'', ''uploadMechanism'',
               ''com.linkedin.digitalmedia.uploading.MediaUploadHttpRequest'', ''uploadUrl'']))
       (\<lambda>uploadUrl.
     await (lift (get_path registerResponse [''value'', ''asset'']))
       (\<lambda>asset.
     await (getImageBuffer imageUrl)
       (\<lambda>imageBuffer.
     await (fetch \<lparr>call_url = js_to_string uploadUrl, call_method = PUT,
                   call_headers =
                     [(''Authorization'', ''Bearer '' @ access_token tokens),
                      (''Content-Type'', ''application/octet-stream'')],
                   call_body = Some imageBuffer\<rparr>)
       (\<lambda>uploadResponse.
          if \<not> ok uploadResponse
          then throw (Error (''Failed to upload image: '' @ statusText uploadResponse))
          else request tokens ''/ugcPosts'' POST
                 (JSON_stringify (image_payload authorUrn options asset))))))))"

definition createOrganizationPost ::
  "OAuthTokens \<Rightarrow> string \<Rightarrow> CreatePostOptions \<Rightarrow> js async" where
  "createOrganizationPost tokens organizationId options =
     (let orgUrn = ''urn:li:organization:'' @ organizationId
      in request tokens ''/ugcPosts'' POST
           (JSON_stringify
              (Obj [(''author'', Str orgUrn),
                    (''lifecycleState'', Str ''PUBLISHED''),
                    (''visibility'',
                       Obj [(''com.linkedin.ugc.MemberNetworkVisibility'',
                             Str (to_text (or_else (visibility options) (Some ''PUBLIC''))))]),
                    (''specificContent'',
                       Obj [(''com.linkedin.ugc.ShareContent'',
                             Obj [(''shareCommentary'',
                                     Obj [(''text'', Str (post_text options))]),
                                  (''shareMediaCategory'', Str ''NONE'')])])])))"

definition createOrganizationImagePost ::
  "OAuthTokens \<Rightarrow> string \<Rightarrow> CreatePostOptions \<Rightarrow> string \<Rightarrow> js async" where
  "createOrganizationImagePost tokens organizationId options imageUrl =
     (let orgUrn = ''urn:li:organization:'' @ organizationId
      in
     await (registerImageUpload tokens orgUrn)
       (\<lambda>registerResponse.
     await (lift (get_path registerResponse
              [''value'', ''uploadMechanism'',
               ''com.linkedin.digitalmedia.uploading.MediaUploadHttpRequest'', ''uploadUrl'']))
       (\<lambda>uploadUrl.
     await (lift (get_path registerResponse [''value'', ''asset'']))
       (\<lambda>asset.
     await (getImageBuffer imageUrl)
       (\<lambda>imageBuffer.
     await (fetch \<lparr>call_url = js_to_string uploadUrl, call_method = PUT,
                   call_headers =
                     [(''Authorization'', ''Bearer '' @ access_token tokens),
                      (''Content-Type'', ''application/octet-stream'')],
                   call_body = Some imageBuffer\<rparr>)
       (\<lambda>uploadResponse.
          if \<not> ok uploadResponse
          then throw (Error (''Failed to upload image: '' @ statusText uploadResponse))
          else request tokens ''/ugcPosts'' POST
                 (JSON_stringify (image_payload orgUrn options asset))))))))"

subsection \<open>The steps that the two image pipelines share\<close>

text \<open>Steps 1 to 4, for the proofs: the two functions differ only in where the URN comes from.\<close>

definition upload_and_publish ::
  "OAuthTokens \<Rightarrow> string \<Rightarrow> CreatePostOptions \<Rightarrow> string \<Rightarrow> js async" where
  "upload_and_publish tokens urn options imageUrl =
     await (registerImageUpload tokens urn)
       (\<lambda>registerResponse.
     await (lift (get_path registerResponse
              [''value'', ''uploadMechanism'',
               ''com.linkedin.digitalmedia.uploading.MediaUploadHttpRequest'', ''uploadUrl'']))
       (\<lambda>uploadUrl.
     await (lift (get_path registerResponse [''value'', ''asset'']))
       (\<lambda>asset.
     await (getImageBuffer imageUrl)
       (\<lambda>imageBuffer.
     await (fetch \<lparr>call_url = js_to_string uploadUrl, call_method = PUT,
                   call_headers =
                     [(''Authorization'', ''Bearer '' @ access_token tokens),
                      (''Content-Type'', ''application/octet-stream'')],
                   call_body = Some imageBuffer\<rparr>)
       (\<lambda>uploadResponse.
          if \<not> ok uploadResponse
          then throw (Error (''Failed to upload image: '' @ statusText uploadResponse))
          else request tokens ''/ugcPosts'' POST
                 (JSON_stringify (image_payload urn options asset)))))))"

subsection \<open>Reading a run\<close>

text \<open>
  The exchanges that a run added, whether an exchange got a success status, and the
  phase of the pipeline that a call belongs to: the PUT is the transfer, the POST to
  \<open>/ugcPosts\<close> the publication, the POST to \<open>/assets?action=registerUpload\<close> the
  registration.
\<close>

definition issued :: "world \<Rightarrow> world \<Rightarrow> (fetch_call \<times> fetch_result) list" where
  "issued w w' = drop (length (exchanges w)) (exchanges w')"

fun answered_ok :: "fetch_result \<Rightarrow> bool" where
  "answered_ok (Responds response) = ok response"
| "answered_ok NetworkFailure = False"

datatype phase = Register | Transfer | Publish | Other

definition phase_of :: "fetch_call \<Rightarrow> phase" where
  "phase_of call =
     (if call_method call = PUT then Transfer
      else if call_method call = POST \<and> call_url call = ''https://api.linkedin.com/v2/ugcPosts''
        then Publish
      else if call_method call = POST
              \<and> call_url call = ''https://api.linkedin.com/v2/assets?action=registerUpload''
        then Register
      else Other)"

definition phases :: "(fetch_call \<times> fetch_result) list \<Rightarrow> phase list" where
  "phases new = map (\<lambda>(call, answer). phase_of call) new"

text \<open>
  The order of the image pipeline: registration, the download of the image when it is
  not a local file, transfer, publication.
\<close>

definition pipeline :: "string \<Rightarrow> phase list" where
  "pipeline imageUrl =
     [Register] @ (if isLocalPath imageUrl then [] else [Other]) @ [Transfer, Publish]"

text \<open>
  A run conforms to a list of phases when it only adds exchanges, leaves the disk alone,
  and either returns after exactly these phases, each answered with a success status, or
  throws after some first ones of them, of which only the last can have failed.
\<close>

definition all_ok :: "(fetch_call \<times> fetch_result) list \<Rightarrow> bool" where
  "all_ok new = list_all (\<lambda>(call, answer). answered_ok answer) new"

definition conforms :: "'a async \<Rightarrow> world \<Rightarrow> phase list \<Rightarrow> bool" where
  "conforms m w E =
     (case m w of (r, w') \<Rightarrow>
        exchanges w' = exchanges w @ issued w w'
        \<and> disk w' = disk w \<and> env_HOME w' = env_HOME w
        \<and> (case r of
              Inr x \<Rightarrow> phases (issued w w') = E \<and> all_ok (issued w w')
            | Inl e \<Rightarrow> prefix (phases (issued w w')) E \<and> all_ok (butlast (issued w w'))))"

definition has_prop :: "js \<Rightarrow> string \<Rightarrow> bool" where
  "has_prop v k = (case v of Obj ps \<Rightarrow> k \<in> fst ` set ps | _ \<Rightarrow> False)"

text \<open>Where the share content lies in a post payload.\<close>

definition share_content :: "string list" where
  "share_content = [''specificContent'', ''com.linkedin.ugc.ShareContent'']"

text \<open>Values for concrete runs.\<close>

definition hi_options :: CreatePostOptions where
  "hi_options = \<lparr>post_text = ''hi'', visibility = None, mediaUrls = None,
     articleUrl = None, articleTitle = None, articleDescription = None\<rparr>"

definition response_of :: "int \<Rightarrow> string \<Rightarrow> string \<Rightarrow> fetch_result" where
  "response_of code reason body =
     Responds \<lparr>status = code, statusText = reason, body_text = body\<rparr>"

definition world_of :: "fetch_result list \<Rightarrow> world" where
  "world_of answers =
     \<lparr>exchanges = [], upstream = answers, disk = [(''/tmp/pic.png'', ''PNG'')],
      env_HOME = Some ''/home/ada''\<rparr>"

definition title_only_options :: CreatePostOptions where
  "title_only_options = \<lparr>post_text = ''hi'', visibility = None, mediaUrls = None,
     articleUrl = None, articleTitle = Some ''A title'', articleDescription = None\<rparr>"

definition article_options :: CreatePostOptions where
  "article_options = \<lparr>post_text = ''hi'', visibility = None, mediaUrls = None,
     articleUrl = Some ''https://example.com/a'', articleTitle = Some ''A title'',
     articleDescription = None\<rparr>"

definition unauthorized_body :: string where
  "unauthorized_body = ''{'' @ quote ''message'' @ '':'' @ quote ''Unauthorized'' @ ''}''"

definition text_of :: "js \<Rightarrow> string" where
  "text_of v = (case JSON_stringify v of None \<Rightarrow> [] | Some t \<Rightarrow> t)"

definition profile_answer :: fetch_result where
  "profile_answer = response_of 200 ''OK'' (text_of (Obj [(''sub'', Str ''42''), (''name'', Str ''Ada'')]))"

definition register_answer :: fetch_result where
  "register_answer = response_of 200 ''OK''
     (text_of (Obj [(''value'',
        Obj [(''uploadMechanism'',
                Obj [(''com.linkedin.digitalmedia.uploading.MediaUploadHttpRequest'',
                      Obj [(''uploadUrl'', Str ''https://upload.example/one-time'')])]),
             (''asset'', Str ''urn:li:digitalmediaAsset:1'')])]))"

definition created_answer :: fetch_result where
  "created_answer = response_of 201 ''Created'' (text_of (Obj [(''id'', Str ''urn:li:share:9'')]))"

section \<open>Credential store (oauth.ts)\<close>

subsection \<open>The file system\<close>

text \<open>
  A path is the list of its segments, and \<open>path.join\<close> appends segments. The file
  system gives each path its node, if there is one; the empty path, where relative
  paths start, needs none. Modes are left out.
\<close>

type_synonym path = "string list"

datatype node = Dir | File string

type_synonym filesystem = "path \<Rightarrow> node option"

definition existsSync :: "filesystem \<Rightarrow> path \<Rightarrow> bool" where
  "existsSync fs p = (fs p \<noteq> None)"

text \<open>The path itself and the paths above it, from the top.\<close>

definition ancestors :: "path \<Rightarrow> path list" where
  "ancestors p = map (\<lambda>n. take n p) [1..<Suc (length p)]"

definition is_file :: "filesystem \<Rightarrow> path \<Rightarrow> bool" where
  "is_file fs p = (case fs p of Some (File content) \<Rightarrow> True | _ \<Rightarrow> False)"

text \<open>
  \<open>fs.mkdirSync(p, {recursive: true})\<close> makes the directory and those above it that
  are missing, and keeps those that are there; it throws when a file is in the way.
\<close>

definition mkdirSync_recursive :: "path \<Rightarrow> filesystem \<Rightarrow> js_error + filesystem" where
  "mkdirSync_recursive p fs =
     (if list_ex (is_file fs) (ancestors p) then Inl (Error ''EEXIST'')
      else Inr (\<lambda>q. if q \<in> set (ancestors p) then Some Dir else fs q))"

text \<open>
  \<open>fs.writeFileSync\<close> makes or replaces the file; it throws when the directory of the
  path is missing or is a file, and when the path is a directory.
\<close>

definition writeFileSync :: "path \<Rightarrow> string \<Rightarrow> filesystem \<Rightarrow> js_error + filesystem" where
  "writeFileSync p content fs =
     (if p = [] then Inl (Error ''EISDIR'')
      else if butlast p \<noteq> [] \<and> fs (butlast p) \<noteq> Some Dir then Inl (Error ''ENOENT'')
      else if fs p = Some Dir then Inl (Error ''EISDIR'')
      else Inr (fs(p \<mapsto> File content)))"

definition readFileSync :: "path \<Rightarrow> filesystem \<Rightarrow> js_error + string" where
  "readFileSync p fs =
     (case fs p of
        None \<Rightarrow> Inl (Error ''ENOENT'')
      | Some Dir \<Rightarrow> Inl (Error ''EISDIR'')
      | Some (File content) \<Rightarrow> Inr content)"

text \<open>In a file system every node but a topmost one lies in a directory.\<close>

definition well_formed :: "filesystem \<Rightarrow> bool" where
  "well_formed fs = (\<forall>p. fs p \<noteq> None \<and> butlast p \<noteq> [] \<longrightarrow> fs (butlast p) = Some Dir)"

subsection \<open>Tokens as objects\<close>

text \<open>
  The object that a record of type \<open>OAuthTokens\<close> is, and the record that an object
  is when it has that type. The cast \<open>as OAuthTokens\<close> in \<open>loadTokens\<close> checks
  nothing: \<open>loadTokens\<close> returns what \<open>JSON.parse\<close> returns.
\<close>

definition OAuthTokens_js :: "OAuthTokens \<Rightarrow> js" where
  "OAuthTokens_js tokens =
     Obj [(''access_token'', Str (access_token tokens)),
          (''expires_in'', Num (expires_in tokens)),
          (''refresh_token'',
             (case refresh_token tokens of None \<Rightarrow> Undefined | Some r \<Rightarrow> Str r)),
          (''refresh_token_expires_in'',
             (case refresh_token_expires_in tokens of None \<Rightarrow> Undefined | Some n \<Rightarrow> Num n)),
          (''scope'', Str (scope tokens)),
          (''token_type'', Str (token_type tokens)),
          (''created_at'', Str (created_at tokens))]"

fun optional_string :: "js \<Rightarrow> string option option" where
  "optional_string Undefined = Some None"
| "optional_string (Str s) = Some (Some s)"
| "optional_string v = None"

fun optional_number :: "js \<Rightarrow> int option option" where
  "optional_number Undefined = Some None"
| "optional_number (Num n) = Some (Some n)"
| "optional_number v = None"

definition as_OAuthTokens :: "js \<Rightarrow> OAuthTokens option" where
  "as_OAuthTokens v =
     (case v of
        Obj ps \<Rightarrow>
          (case (lookup_last ''access_token'' ps, lookup_last ''expires_in'' ps,
                 optional_string (lookup_last ''refresh_token'' ps),
                 optional_number (lookup_last ''refresh_token_expires_in'' ps),
                 lookup_last ''scope'' ps, lookup_last ''token_type'' ps,
                 lookup_last ''created_at'' ps) of
             (Str a, Num e, Some r, Some re, Str s, Str t, Str c) \<Rightarrow>
               Some \<lparr>access_token = a, expires_in = e, refresh_token = r,
                     refresh_token_expires_in = re, scope = s, token_type = t,
                     created_at = c\<rparr>
           | _ \<Rightarrow> None)
      | _ \<Rightarrow> None)"

subsection \<open>Saving and loading\<close>

text \<open>
  The functions take the home directory (\<open>HOME\<close>, or \<open>USERPROFILE\<close>, or nothing) and
  the file system, and return the new file system or what they read.
\<close>

definition getCredentialsDir :: "path \<Rightarrow> filesystem \<Rightarrow> path" where
  "getCredentialsDir homeDir fs =
     (let clawdbotDir = homeDir @ [''.clawdbot'', ''credentials'']
      in if existsSync fs clawdbotDir then clawdbotDir
         else (let moltbotDir = homeDir @ [''.moltbot'', ''credentials'']
               in if existsSync fs moltbotDir then moltbotDir
                  else clawdbotDir))"

definition saveTokens :: "path \<Rightarrow> OAuthTokens \<Rightarrow> filesystem \<Rightarrow> js_error + filesystem" where
  "saveTokens homeDir tokens fs =
     (let credentialsDir = getCredentialsDir homeDir fs
      in case (if \<not> existsSync fs credentialsDir
               then mkdirSync_recursive credentialsDir fs
               else Inr fs) of
           Inl e \<Rightarrow> Inl e
         | Inr fs1 \<Rightarrow>
             (let credentialsPath = credentialsDir @ [''linkedin.json'']
              in case JSON_stringify_2 (OAuthTokens_js tokens) of
                   None \<Rightarrow> Inl TypeError
                 | Some content \<Rightarrow> writeFileSync credentialsPath content fs1))"

text \<open>\<open>loadTokens\<close> returns \<open>null\<close> when there is no file.\<close>

definition loadTokens :: "path \<Rightarrow> filesystem \<Rightarrow> js_error + js" where
  "loadTokens homeDir fs =
     (let clawdbotPath = homeDir @ [''.clawdbot'', ''credentials'', ''linkedin.json'']
      in if existsSync fs clawdbotPath then
           (case readFileSync clawdbotPath fs of
              Inl e \<Rightarrow> Inl e
            | Inr content \<Rightarrow> JSON_parse content)
         else
           (let moltbotPath = homeDir @ [''.moltbot'', ''credentials'', ''linkedin.json'']
            in if existsSync fs moltbotPath then
                 (case readFileSync moltbotPath fs of
                    Inl e \<Rightarrow> Inl e
                  | Inr content \<Rightarrow> JSON_parse content)
               else Inr Null))"

text \<open>\<open>saveTokens(tokens)\<close>, and then at once \<open>loadTokens()\<close>.\<close>

definition save_and_load :: "path \<Rightarrow> OAuthTokens \<Rightarrow> filesystem \<Rightarrow> js_error + js" where
  "save_and_load homeDir tokens fs =
     (case saveTokens homeDir tokens fs of
        Inl e \<Rightarrow> Inl e
      | Inr fs' \<Rightarrow> loadTokens homeDir fs')"

text \<open>File systems for concrete runs: a home directory, bare or with the legacy root.\<close>

definition bare_home :: filesystem where
  "bare_home = [[''home''] \<mapsto> Dir, [''home'', ''ada''] \<mapsto> Dir]"

definition legacy_home :: filesystem where
  "legacy_home = [[''home''] \<mapsto> Dir, [''home'', ''ada''] \<mapsto> Dir,
     [''home'', ''ada'', ''.moltbot''] \<mapsto> Dir,
     [''home'', ''ada'', ''.moltbot'', ''credentials''] \<mapsto> Dir]"

definition primary_home :: filesystem where
  "primary_home = [[''home''] \<mapsto> Dir, [''home'', ''ada''] \<mapsto> Dir,
     [''home'', ''ada'', ''.clawdbot''] \<mapsto> Dir,
     [''home'', ''ada'', ''.clawdbot'', ''credentials''] \<mapsto> Dir,
     [''home'', ''ada'', ''.clawdbot'', ''credentials'', ''linkedin.json''] \<mapsto> File ''{}'']"

definition refreshable_token :: OAuthTokens where
  "refreshable_token = \<lparr>access_token = ''AQX-secret'', expires_in = 5184000,
     refresh_token = Some ''AQW-refresh'', refresh_token_expires_in = Some 31536000,
     scope = ''openid profile w_member_social'', token_type = ''Bearer'',
     created_at = ''2024-01-01T00:00:00.000Z''\<rparr>"

section \<open>Properties of the expiry checks\<close>

lemma isTokenExpired_Some:
  "getTime (created_at tokens) = Some c \<Longrightarrow>
   isTokenExpired getTime now tokens = (now \<ge> c + (expires_in tokens - 300) * 1000)"
  by (auto simp: isTokenExpired_def Let_def algebra_simps)

lemma isTokenExpired_None:
  "getTime (created_at tokens) = None \<Longrightarrow> \<not> isTokenExpired getTime now tokens"
  by (simp add: isTokenExpired_def)

lemma toISOString_time_2024:
  "toISOString_time ''2024-01-01T00:00:00.000Z'' = Some 1704067200000"
  by (simp add: toISOString_time_def digits_val_def digit_of_def days_in_month_def
      is_leap_def days_from_civil_def Let_def)


text \<open>
  C1 (as stated, second half). The claim says that with \<open>expires_in = 3600\<close> a token
  created 3594 seconds ago is not expired. The margin of the code is 5 minutes, that is
  300 seconds, so the token has been expired since second 3300: at 3594 seconds the check
  answers true.
\<close>

theorem isTokenExpired_3594_counterexample:
  "isTokenExpired toISOString_time (1704067200000 + 3594 * 1000) token3600"
  by (simp add: isTokenExpired_def token3600_def toISOString_time_2024)

text \<open>
  C1 (amended). For every record and every reading of the clock, \<open>isTokenExpired\<close> is true
  if and only if \<open>created_at\<close> is a date and \<open>now \<ge> createdAt + (expires_in - 300)\<close>
  seconds (in milliseconds: times 1000). In particular, with \<open>expires_in = 3600\<close>, a token
  created 3300 seconds ago is expired, and a token created 3299 seconds ago is not.
\<close>

theorem isTokenExpired_margin:
  "(isTokenExpired getTime now tokens \<longleftrightarrow>
      (\<exists>createdAt. getTime (created_at tokens) = Some createdAt
         \<and> now \<ge> createdAt + (expires_in tokens - 300) * 1000))
   \<and> (getTime (created_at tokens) = Some c \<and> expires_in tokens = 3600 \<longrightarrow>
        isTokenExpired getTime (c + 3300 * 1000) tokens
        \<and> \<not> isTokenExpired getTime (c + 3299 * 1000) tokens)"
proof (cases "getTime (created_at tokens)")
  case None
  then show ?thesis by (simp add: isTokenExpired_None)
next
  case (Some a)
  then show ?thesis by (simp add: isTokenExpired_Some)
qed

theorem isTokenExpired_margin_witness:
  "toISOString_time (created_at token3600) = Some 1704067200000
   \<and> expires_in token3600 = 3600
   \<and> isTokenExpired toISOString_time (1704067200000 + 3300 * 1000) token3600
   \<and> \<not> isTokenExpired toISOString_time (1704067200000 + 3299 * 1000) token3600"
proof -
  have h: "toISOString_time (created_at token3600) = Some 1704067200000
           \<and> expires_in token3600 = 3600"
    by (simp add: token3600_def toISOString_time_2024)
  from isTokenExpired_margin [of toISOString_time _ token3600 1704067200000] h
  show ?thesis by blast
qed

text \<open>
  C10. For every record and every reading of the clock, an expired token is reported
  as expiring soon: the margin of 5 minutes lies inside the window of 7 days.
\<close>

theorem expired_imp_expiring_soon:
  "isTokenExpired getTime now tokens \<Longrightarrow> isTokenExpiringSoon getTime now tokens"
  by (auto simp: isTokenExpired_def isTokenExpiringSoon_def Let_def split: option.splits)

theorem expired_imp_expiring_soon_witness:
  "isTokenExpired toISOString_time (1704067200000 + 7200 * 1000) token3600
   \<and> isTokenExpiringSoon toISOString_time (1704067200000 + 7200 * 1000) token3600"
proof -
  have h: "isTokenExpired toISOString_time (1704067200000 + 7200 * 1000) token3600"
    by (simp add: isTokenExpired_def token3600_def toISOString_time_2024)
  from h expired_imp_expiring_soon [OF h] show ?thesis by simp
qed

section \<open>Properties of the callback listener\<close>

lemma reject_settled: "p \<noteq> Pending \<Longrightarrow> reject r p = p"
  by (cases p) (simp_all add: reject_def)

lemma resolve_settled: "p \<noteq> Pending \<Longrightarrow> resolve v p = p"
  by (cases p) (simp_all add: resolve_def)

lemma deliver_settled:
  "promise s \<noteq> Pending \<Longrightarrow> promise (deliver es s ev) = promise s"
  by (cases ev) (auto simp: handle_request_def server_close_def reject_settled resolve_settled)


lemma foldl_deliver_settled:
  "promise s \<noteq> Pending \<Longrightarrow> promise (foldl (deliver es) s evs) = promise s"
  by (induction evs arbitrary: s) (simp_all add: deliver_settled)












text \<open>
  C2 (as stated). The claim says that a callback request with a mismatched \<open>state\<close>
  rejects the promise with the invalid-state error. The handler tests the \<open>error\<close>
  parameter first: a request with \<open>error=access_denied\<close> and a mismatched \<open>state\<close>
  rejects with \<open>access_denied\<close>.
\<close>

theorem mismatched_state_reason_counterexample:
  "pathname denied_request = ''/callback''
   \<and> q_state denied_request \<noteq> Some ''expected''
   \<and> promise (snd (handle_request ''expected'' denied_request startCallbackServer))
       = Rejected ''access_denied''
   \<and> promise (snd (handle_request ''expected'' denied_request startCallbackServer))
       \<noteq> Rejected ''Invalid state parameter''"
  by (simp add: handle_request_def denied_request_def startCallbackServer_def
      server_close_def reject_def or_else_def)

text \<open>
  C2 (amended). For every request to the callback path whose \<open>state\<close> differs from the
  expected one (or is absent), handled while the promise is pending: the reply has
  status 400, the server is closed, and the promise is rejected, whatever \<open>code\<close> the
  request carries; it stays rejected under every later event, so it is never resolved.
  The reason is the invalid-state error when the request has no \<open>error\<close> parameter (or an
  empty one), and the error's description (or the error) otherwise.
\<close>

theorem mismatched_state_rejected:
  assumes "pathname req = ''/callback''"
    and "q_state req \<noteq> Some expectedState"
    and "promise s = Pending"
  shows "reply_status (fst (handle_request expectedState req s)) = 400
     \<and> \<not> listening (snd (handle_request expectedState req s))
     \<and> promise (snd (handle_request expectedState req s))
         = Rejected (if truthy (q_error req)
                     then to_text (or_else (q_error_description req) (q_error req))
                     else ''Invalid state parameter'')
     \<and> promise (foldl (deliver expectedState) (snd (handle_request expectedState req s)) evs)
         = promise (snd (handle_request expectedState req s))
     \<and> (\<forall>c. promise (foldl (deliver expectedState)
                 (snd (handle_request expectedState req s)) evs) \<noteq> Resolved c)"
proof -
  let ?s' = "snd (handle_request expectedState req s)"
  have r: "promise ?s'
         = Rejected (if truthy (q_error req)
                     then to_text (or_else (q_error_description req) (q_error req))
                     else ''Invalid state parameter'')"
    using assms by (simp add: handle_request_def reject_def server_close_def)
  have st: "reply_status (fst (handle_request expectedState req s)) = 400"
    using assms by (simp add: handle_request_def)
  have cl: "\<not> listening ?s'"
    using assms by (simp add: handle_request_def server_close_def)
  from r have "promise ?s' \<noteq> Pending" by simp
  then have keep: "promise (foldl (deliver expectedState) ?s' evs) = promise ?s'"
    by (rule foldl_deliver_settled)
  from r keep have "\<forall>c. promise (foldl (deliver expectedState) ?s' evs) \<noteq> Resolved c"
    by simp
  with r st cl keep show ?thesis by blast
qed

theorem mismatched_state_rejected_witness:
  "pathname forged_request = ''/callback''
   \<and> q_state forged_request \<noteq> Some ''expected''
   \<and> q_code forged_request = Some ''attacker-code''
   \<and> promise startCallbackServer = Pending
   \<and> reply_status (fst (handle_request ''expected'' forged_request startCallbackServer)) = 400
   \<and> promise (snd (handle_request ''expected'' forged_request startCallbackServer))
       = Rejected ''Invalid state parameter''
   \<and> promise (foldl (deliver ''expected'')
        (snd (handle_request ''expected'' forged_request startCallbackServer))
        [Request good_request, TimerFires]) = Rejected ''Invalid state parameter''"
proof -
  have h1: "pathname forged_request = ''/callback''"
    and h2: "q_state forged_request \<noteq> Some ''expected''"
    and h3: "promise startCallbackServer = Pending"
    and h4: "q_code forged_request = Some ''attacker-code''"
    and h5: "\<not> truthy (q_error forged_request)"
    by (simp_all add: forged_request_def startCallbackServer_def)
  from mismatched_state_rejected [OF h1 h2 h3, of "[Request good_request, TimerFires]"]
    h1 h2 h3 h4 h5
  show ?thesis by (simp del: foldl_Cons foldl_Nil deliver.simps)
qed




section \<open>\<open>JSON.parse\<close> reads back what \<open>JSON.stringify\<close> writes\<close>

lemma skip_ws_Cons: "\<not> is_ws c \<Longrightarrow> skip_ws (c # cs) = c # cs"
  by (simp add: skip_ws_def)

lemma skip_ws_append: "\<forall>c \<in> set W. is_ws c \<Longrightarrow> skip_ws (W @ cs) = skip_ws cs"
  by (simp add: skip_ws_def dropWhile_append)

lemma hex_of_hex_char: "d < 16 \<Longrightarrow> hex_of (hex_char d) = Some d"
  by (simp add: hex_of_def hex_char_def Let_def)

lemma hex4_escape:
  assumes "(of_char c :: nat) < 32"
  shows "hex4 [CHR ''0'', CHR ''0'', hex_char ((of_char c :: nat) div 16),
               hex_char ((of_char c :: nat) mod 16)] = Some (int (of_char c))"
proof -
  let ?n = "of_char c :: nat"
  have "?n div 16 < 16" using assms by simp
  then have a: "hex_of (hex_char (?n div 16)) = Some (?n div 16)" by (rule hex_of_hex_char)
  have "?n mod 16 < 16" by simp
  then have b: "hex_of (hex_char (?n mod 16)) = Some (?n mod 16)" by (rule hex_of_hex_char)
  have z: "hex_of CHR ''0'' = Some 0" by (simp add: hex_of_def)
  have "int (?n div 16 * 16 + ?n mod 16) = int ?n" by simp
  then have "int (?n div 16) * 16 + int (?n mod 16) = int ?n"
    by (simp only: of_nat_add of_nat_mult of_nat_numeral)
  then show ?thesis
    by (simp add: hex4_def a b z)
qed

lemma utf8_control: "(of_char c :: nat) < 32 \<Longrightarrow> utf8 (int (of_char c)) = [c]"
  by (simp add: utf8_def)


lemma parse_chars_escape:
  "parse_chars (escape_char c @ cs) = prepend [c] (parse_chars cs)"
proof -
  consider (q) "c = CHR 0x22" | (bs) "c = CHR 0x5C" | (b) "c = CHR 0x08" | (t) "c = CHR 0x09"
    | (n) "c = CHR 0x0A" | (f) "c = CHR 0x0C" | (r) "c = CHR 0x0D"
    | (u) "c \<noteq> CHR 0x22" "c \<noteq> CHR 0x5C" "c \<noteq> CHR 0x08" "c \<noteq> CHR 0x09" "c \<noteq> CHR 0x0A"
          "c \<noteq> CHR 0x0C" "c \<noteq> CHR 0x0D" "(of_char c :: nat) < 32"
    | (p) "c \<noteq> CHR 0x22" "c \<noteq> CHR 0x5C" "c \<noteq> CHR 0x08" "c \<noteq> CHR 0x09" "c \<noteq> CHR 0x0A"
          "c \<noteq> CHR 0x0C" "c \<noteq> CHR 0x0D" "\<not> (of_char c :: nat) < 32"
    by blast
  then show ?thesis
  proof cases
    case u
    then have "escape_char c = [CHR 0x5C, CHR ''u'', CHR ''0'', CHR ''0'',
         hex_char ((of_char c :: nat) div 16), hex_char ((of_char c :: nat) mod 16)]"
      by (simp add: escape_char_def)
    then show ?thesis using hex4_escape [OF u(8)] utf8_control [OF u(8)] u(8) by simp
  next
    case p
    then have "escape_char c = [c]" by (simp add: escape_char_def)
    then show ?thesis using p by simp
  qed (simp_all add: escape_char_def unescape_def)
qed

lemma parse_chars_quote_body:
  "parse_chars (concat (map escape_char s) @ CHR 0x22 # rest) = Some (s, rest)"
  by (induction s) (simp_all add: parse_chars_escape prepend_def del: parse_chars.simps, simp)


lemma is_digit_digit_char: "d < 10 \<Longrightarrow> is_digit (digit_char d)"
  by (simp add: is_digit_def digit_char_def)

lemma digit_char_value: "d < 10 \<Longrightarrow> (of_char (digit_char d) :: int) - 48 = int d"
proof -
  assume "d < 10"
  then have "(of_char (digit_char d) :: nat) = 48 + d" by (simp add: digit_char_def)
  then have "int (of_char (digit_char d)) = int (48 + d)" by (simp only:)
  then show ?thesis by (simp add: of_nat_of_char)
qed

lemma digit_char_zero: "d < 10 \<Longrightarrow> digit_char d = CHR ''0'' \<longleftrightarrow> d = 0"
proof -
  assume d: "d < 10"
  have "digit_char d = CHR ''0'' \<longleftrightarrow> (of_char (digit_char d) :: nat) = of_char CHR ''0''"
    by (metis char_of_char)
  also have "\<dots> \<longleftrightarrow> d = 0" using d by (simp add: digit_char_def)
  finally show ?thesis .
qed

lemma show_nat_digits: "\<forall>c \<in> set (show_nat n). is_digit c"
  by (induction n rule: show_nat.induct) (subst show_nat.simps, simp add: is_digit_digit_char)

lemma show_nat_nonempty: "show_nat n \<noteq> []"
  by (subst show_nat.simps) simp

lemma show_nat_value: "digits_value (show_nat n) = int n"
proof (induction n rule: show_nat.induct)
  case (1 n)
  show ?case
  proof (cases "n < 10")
    case True
    then show ?thesis by (subst show_nat.simps) (simp add: digit_char_value digits_value_def)
  next
    case False
    with 1 have "digits_value (show_nat (n div 10)) = int (n div 10)"
      by simp
    moreover have "int (n div 10 * 10 + n mod 10) = int n" by simp
    then have "int (n div 10) * 10 + int (n mod 10) = int n"
      by (simp only: of_nat_add of_nat_mult of_nat_numeral)
    ultimately show ?thesis using False
      by (subst show_nat.simps) (simp add: digit_char_value digits_value_def)
  qed
qed

lemma show_nat_hd: "n \<noteq> 0 \<Longrightarrow> hd (show_nat n) \<noteq> CHR ''0''"
proof (induction n rule: show_nat.induct)
  case (1 n)
  show ?case
  proof (cases "n < 10")
    case True
    with "1.prems" show ?thesis by (subst show_nat.simps) (simp add: digit_char_zero)
  next
    case False
    then have "n div 10 \<noteq> 0" by simp
    with 1 False have "hd (show_nat (n div 10)) \<noteq> CHR ''0''" by simp
    then show ?thesis using False show_nat_nonempty [of "n div 10"]
      by (subst show_nat.simps) simp
  qed
qed

lemma show_nat_long: "1 < length (show_nat n) \<Longrightarrow> n \<noteq> 0"
  by (rule ccontr) (simp add: show_nat.simps [of 0])

lemma ends_number_not_digit:
  "ends_number rest \<Longrightarrow> rest = [] \<or> (\<not> is_digit (hd rest) \<and> hd rest \<notin> {CHR ''.'', CHR ''e'', CHR ''E''})"
  by (auto simp: ends_number_def is_ws_def is_digit_def split: list.splits)

lemma parse_digits_show_nat:
  assumes "ends_number rest"
  shows "parse_digits (show_nat n @ rest) = Some (int n, rest)"
proof -
  from ends_number_not_digit [OF assms]
  have r: "rest = [] \<or> (\<not> is_digit (hd rest) \<and> hd rest \<notin> {CHR ''.'', CHR ''e'', CHR ''E''})" .
  have t: "takeWhile is_digit (show_nat n @ rest) = show_nat n"
    using r show_nat_digits [of n] by (cases rest) (auto simp: takeWhile_append2)
  have d: "dropWhile is_digit (show_nat n @ rest) = rest"
    using r show_nat_digits [of n] by (cases rest) (auto simp: dropWhile_append2)
  have z: "\<not> (1 < length (show_nat n) \<and> hd (show_nat n) = CHR ''0'')"
    using show_nat_long show_nat_hd by blast
  show ?thesis
    unfolding parse_digits_def Let_def t d
    using z r show_nat_nonempty [of n] by (auto simp: show_nat_value)
qed


lemma ends_number_stops: "ends_number rest \<Longrightarrow> \<not> continues_number rest"
  by (auto simp: ends_number_def continues_number_def is_ws_def split: list.splits)

lemma show_nat_first: "\<exists>c cs. show_nat n = c # cs \<and> is_digit c"
  using show_nat_nonempty [of n] show_nat_digits [of n] by (cases "show_nat n") auto

lemma parse_number_show_int:
  assumes "ends_number rest"
  shows "parse_number (show_int i @ rest) = Some (Num i, rest)"
proof (cases "i < 0")
  case True
  then show ?thesis
    by (simp add: parse_number_def show_int_def parse_digits_show_nat [OF assms]
        ends_number_stops [OF assms])
next
  case False
  obtain c cs where sn: "show_nat (nat i) = c # cs" and dc: "is_digit c"
    using show_nat_first by blast
  from dc have "c \<noteq> CHR ''-''" by (auto simp: is_digit_def)
  moreover have "parse_digits (c # cs @ rest) = Some (int (nat i), rest)"
    using parse_digits_show_nat [OF assms, of "nat i"] sn by simp
  ultimately show ?thesis using False sn
    by (simp add: parse_number_def show_int_def ends_number_stops [OF assms])
qed


lemma skip_ws_blank: "blank W \<Longrightarrow> \<not> is_ws c \<Longrightarrow> skip_ws (W @ c # cs) = c # cs"
  by (simp add: blank_def skip_ws_def dropWhile_append)

lemma blank_simps [simp]: "blank []" "blank (c # W) = (is_ws c \<and> blank W)"
  "blank (W @ W') = (blank W \<and> blank W')"
  by (auto simp: blank_def)

lemma ends_number_blank:
  "blank W \<Longrightarrow> c = CHR '','' \<or> c = CHR ''}'' \<or> c = CHR '']'' \<Longrightarrow> ends_number (W @ c # cs)"
  by (cases W) (auto simp: ends_number_def)

lemma pv_null:
  assumes "blank W"
  shows "parse_value (Suc n) (W @ ''null'' @ rest) = Some (Null, rest)"
proof -
  have "skip_ws (W @ ''null'' @ rest) = ''null'' @ rest"
    using skip_ws_blank [OF assms, of "CHR ''n''"] by (simp add: is_ws_def)
  then show ?thesis by (simp add: parse_literal_def)
qed

lemma pv_true:
  assumes "blank W"
  shows "parse_value (Suc n) (W @ ''true'' @ rest) = Some (Bool True, rest)"
proof -
  have "skip_ws (W @ ''true'' @ rest) = ''true'' @ rest"
    using skip_ws_blank [OF assms, of "CHR ''t''"] by (simp add: is_ws_def)
  then show ?thesis by (simp add: parse_literal_def)
qed

lemma pv_false:
  assumes "blank W"
  shows "parse_value (Suc n) (W @ ''false'' @ rest) = Some (Bool False, rest)"
proof -
  have "skip_ws (W @ ''false'' @ rest) = ''false'' @ rest"
    using skip_ws_blank [OF assms, of "CHR ''f''"] by (simp add: is_ws_def)
  then show ?thesis by (simp add: parse_literal_def)
qed

lemma pv_str:
  assumes "blank W"
  shows "parse_value (Suc n) (W @ quote s @ rest) = Some (Str s, rest)"
proof -
  have "skip_ws (W @ quote s @ rest) = CHR 0x22 # concat (map escape_char s) @ CHR 0x22 # rest"
    using skip_ws_blank [OF assms, of "CHR 0x22"] by (simp add: is_ws_def quote_def)
  then show ?thesis by (simp add: parse_chars_quote_body)
qed

lemma pv_num:
  assumes "blank W" and "ends_number rest"
  shows "parse_value (Suc n) (W @ show_int i @ rest) = Some (Num i, rest)"
proof -
  obtain c cs where si: "show_int i = c # cs" and c: "c = CHR ''-'' \<or> is_digit c"
    using show_nat_first [of "nat i"] show_nat_first [of "nat (- i)"]
    by (cases "i < 0") (auto simp: show_int_def)
  from c have nw: "\<not> is_ws c" and ne: "c \<noteq> CHR ''{''" "c \<noteq> CHR ''[''" "c \<noteq> CHR 0x22"
    "c \<noteq> CHR ''t''" "c \<noteq> CHR ''f''" "c \<noteq> CHR ''n''"
    by (auto simp: is_ws_def is_digit_def)
  have "skip_ws (W @ show_int i @ rest) = c # cs @ rest"
    using skip_ws_blank [OF assms(1) nw] si by simp
  moreover have "parse_number (c # cs @ rest) = Some (Num i, rest)"
    using parse_number_show_int [OF assms(2), of i] si by simp
  ultimately show ?thesis using ne by simp
qed


lemma pv_arr_empty:
  assumes "blank W"
  shows "parse_value (Suc n) (W @ ''[]'' @ rest) = Some (Arr [], rest)"
proof -
  have "skip_ws (W @ ''[]'' @ rest) = ''[]'' @ rest"
    using skip_ws_blank [OF assms, of "CHR ''[''"] by (simp add: is_ws_def)
  moreover have "skip_ws (CHR '']'' # rest) = CHR '']'' # rest"
    by (simp add: skip_ws_def is_ws_def)
  ultimately show ?thesis by simp
qed

lemma pv_obj_empty:
  assumes "blank W"
  shows "parse_value (Suc n) (W @ ''{}'' @ rest) = Some (Obj [], rest)"
proof -
  have "skip_ws (W @ ''{}'' @ rest) = ''{}'' @ rest"
    using skip_ws_blank [OF assms, of "CHR ''{''"] by (simp add: is_ws_def)
  moreover have "skip_ws (CHR ''}'' # rest) = CHR ''}'' # rest"
    by (simp add: skip_ws_def is_ws_def)
  ultimately show ?thesis by simp
qed

lemma pv_arr:
  assumes "blank W" and "skip_ws r = c # r'" and "c \<noteq> CHR '']''"
    and "parse_elements n r = Some (vs, rest)"
  shows "parse_value (Suc n) (W @ CHR ''['' # r) = Some (Arr vs, rest)"
proof -
  have "skip_ws (W @ CHR ''['' # r) = CHR ''['' # r"
    using skip_ws_blank [OF assms(1), of "CHR ''[''"] by (simp add: is_ws_def)
  then show ?thesis using assms(2-) by simp
qed

lemma pv_obj:
  assumes "blank W" and "skip_ws r = c # r'" and "c \<noteq> CHR ''}''"
    and "parse_members n r = Some (ps, rest)"
  shows "parse_value (Suc n) (W @ CHR ''{'' # r) = Some (Obj ps, rest)"
proof -
  have "skip_ws (W @ CHR ''{'' # r) = CHR ''{'' # r"
    using skip_ws_blank [OF assms(1), of "CHR ''{''"] by (simp add: is_ws_def)
  then show ?thesis using assms(2-) by simp
qed

lemma pe_more:
  assumes "parse_value n cs = Some (v, r)" and "skip_ws r = CHR '','' # r'"
    and "parse_elements n r' = Some (vs, rest)"
  shows "parse_elements (Suc n) cs = Some (v # vs, rest)"
  using assms by simp

lemma pe_last:
  assumes "parse_value n cs = Some (v, r)" and "skip_ws r = CHR '']'' # r'"
  shows "parse_elements (Suc n) cs = Some ([v], r')"
  using assms by simp

lemma pm_key:
  assumes "blank W"
  shows "skip_ws (W @ quote k @ CHR '':'' # r2)
           = CHR 0x22 # concat (map escape_char k) @ CHR 0x22 # CHR '':'' # r2"
  using skip_ws_blank [OF assms, of "CHR 0x22"] by (simp add: is_ws_def quote_def)

lemma skip_ws_colon: "skip_ws (CHR '':'' # r2) = CHR '':'' # r2"
  by (simp add: skip_ws_def is_ws_def)

lemma pm_more:
  assumes "blank W" and "parse_value n r2 = Some (v, r3)" and "skip_ws r3 = CHR '','' # r4"
    and "parse_members n r4 = Some (ps, rest)"
  shows "parse_members (Suc n) (W @ quote k @ CHR '':'' # r2) = Some ((k, v) # ps, rest)"
  using assms(2-) by (simp add: pm_key [OF assms(1)] parse_chars_quote_body skip_ws_colon)

lemma pm_last:
  assumes "blank W" and "parse_value n r2 = Some (v, r3)" and "skip_ws r3 = CHR ''}'' # r4"
  shows "parse_members (Suc n) (W @ quote k @ CHR '':'' # r2) = Some ([(k, v)], r4)"
  using assms(2-) by (simp add: pm_key [OF assms(1)] parse_chars_quote_body skip_ws_colon)


lemma starts_valueI: "\<not> is_ws c \<Longrightarrow> c \<noteq> CHR '']'' \<Longrightarrow> c \<noteq> CHR ''}'' \<Longrightarrow> starts_value (c # cs)"
  by (simp add: starts_value_def)

lemma serialize_None: "serialize gap ind v = None \<longleftrightarrow> v = Undefined \<or> (\<exists>f. v = Native f)"
  by (cases v) simp_all

lemma serialize_starts: "serialize gap ind v = Some t \<Longrightarrow> whole v \<Longrightarrow> starts_value t"
proof (cases v)
  case (Num i)
  assume "serialize gap ind v = Some t"
  with Num have t: "t = show_int i" by simp
  obtain c cs where si: "show_int i = c # cs" and c: "c = CHR ''-'' \<or> is_digit c"
    using show_nat_first [of "nat i"] show_nat_first [of "nat (- i)"]
    by (cases "i < 0") (auto simp: show_int_def)
  from c have "\<not> is_ws c" "c \<noteq> CHR '']''" "c \<noteq> CHR ''}''"
    by (auto simp: is_ws_def is_digit_def)
  then show ?thesis using t si by (simp add: starts_value_def)
qed (auto simp: starts_value_def is_ws_def quote_def wrap_def)

lemma elements_start:
  "t \<in> set (serialize_elements gap ind vs) \<Longrightarrow> whole_elements vs \<Longrightarrow> starts_value t"
proof (induction vs)
  case Nil
  then show ?case by simp
next
  case (Cons v vs)
  then show ?case
    by (cases "serialize gap ind v")
       (auto simp: starts_value_def is_ws_def dest: serialize_starts)
qed

lemma members_start:
  "t \<in> set (serialize_members gap ind ps) \<Longrightarrow> whole_members ps \<Longrightarrow> starts_value t"
proof (induction ps)
  case Nil
  then show ?case by simp
next
  case (Cons p ps)
  obtain k v where p: "p = (k, v)" by (cases p)
  from Cons show ?case unfolding p
    by (cases "serialize gap ind v")
       (auto simp: starts_value_def is_ws_def quote_def)
qed

lemma members_empty: "serialize_members gap ind ps = [] \<Longrightarrow> jsonify_members ps = []"
proof (induction ps)
  case Nil
  then show ?case by simp
next
  case (Cons p ps)
  obtain k v where p: "p = (k, v)" by (cases p)
  from Cons show ?case unfolding p
    by (cases "serialize gap ind v") (auto simp: serialize_None)
qed

lemma elements_length: "length (serialize_elements gap ind vs) = length vs"
  by (induction vs) simp_all

lemma join_Cons: "xs \<noteq> [] \<Longrightarrow> join sep (x # xs) = x @ sep @ join sep xs"
  by (cases xs) simp_all

lemma join_length: "length (concat xs) \<le> length (join sep xs)"
  by (induction sep xs rule: join.induct) simp_all

lemma join_starts:
  assumes "xs \<noteq> []" and "\<forall>t \<in> set xs. starts_value t"
  shows "\<exists>c cs. join sep xs @ z = c # cs \<and> \<not> is_ws c \<and> c \<noteq> CHR '']'' \<and> c \<noteq> CHR ''}''"
proof -
  from assms obtain x xs' where xs: "xs = x # xs'" by (cases xs) auto
  with assms(2) obtain c cs where x: "x = c # cs" and c: "\<not> is_ws c" "c \<noteq> CHR '']''" "c \<noteq> CHR ''}''"
    by (auto simp: starts_value_def)
  then show ?thesis unfolding xs by (cases xs') auto
qed

lemma wrap_form:
  assumes "partial \<noteq> []" and "blank gap" and "blank ind"
  shows "\<exists>W1 W2 W3. blank W1 \<and> blank W2 \<and> blank W3
           \<and> wrap [opening] [closing] gap ind partial
               = opening # W1 @ join (CHR '','' # W2) partial @ W3 @ [closing]"
proof (cases "gap = []")
  case True
  have "blank []" by simp
  moreover have "wrap [opening] [closing] gap ind partial
               = opening # [] @ join (CHR '','' # []) partial @ [] @ [closing]"
    using assms(1) True by (simp add: wrap_def)
  ultimately show ?thesis by blast
next
  case False
  have "blank (CHR 0x0A # ind @ gap)" "blank (CHR 0x0A # ind)"
    using assms(2,3) by (simp_all add: is_ws_def)
  moreover have "wrap [opening] [closing] gap ind partial
               = opening # (CHR 0x0A # ind @ gap)
                 @ join (CHR '','' # (CHR 0x0A # ind @ gap)) partial @ (CHR 0x0A # ind) @ [closing]"
    using assms(1) False by (simp add: wrap_def)
  ultimately show ?thesis by blast
qed


lemma skip_ws_mark: "blank W \<Longrightarrow> c = CHR '','' \<or> c = CHR '']'' \<or> c = CHR ''}'' \<Longrightarrow>
  skip_ws (W @ c # cs) = c # cs"
  by (rule skip_ws_blank) (auto simp: is_ws_def)

lemma roundtrip:
  "blank gap \<Longrightarrow> blank ind \<Longrightarrow> serialize gap ind v = Some t \<Longrightarrow> blank W \<Longrightarrow>
   ends_number rest \<Longrightarrow> length t < fuel \<Longrightarrow> whole v \<Longrightarrow>
   parse_value fuel (W @ t @ rest) = Some (jsonify v, rest)"
  "blank gap \<Longrightarrow> blank ind \<Longrightarrow> vs \<noteq> [] \<Longrightarrow> blank W1 \<Longrightarrow> blank W2 \<Longrightarrow> blank W3 \<Longrightarrow>
   length (concat (serialize_elements gap ind vs)) + 1 < fuel \<Longrightarrow> whole_elements vs \<Longrightarrow>
   parse_elements fuel
     (W1 @ join (CHR '','' # W2) (serialize_elements gap ind vs) @ W3 @ CHR '']'' # rest)
     = Some (jsonify_elements vs, rest)"
  "blank gap \<Longrightarrow> blank ind \<Longrightarrow> serialize_members gap ind ps \<noteq> [] \<Longrightarrow>
   blank W1 \<Longrightarrow> blank W2 \<Longrightarrow> blank W3 \<Longrightarrow>
   length (concat (serialize_members gap ind ps)) + 1 < fuel \<Longrightarrow> whole_members ps \<Longrightarrow>
   parse_members fuel
     (W1 @ join (CHR '','' # W2) (serialize_members gap ind ps) @ W3 @ CHR ''}'' # rest)
     = Some (jsonify_members ps, rest)"
proof (induction gap ind v and gap ind vs and gap ind ps
    arbitrary: t W rest fuel and W1 W2 W3 rest fuel and W1 W2 W3 rest fuel
    rule: serialize_serialize_elements_serialize_members.induct)
  case (1 gap indent)
  then show ?case by simp
next
  case (2 gap indent)
  then obtain n where "fuel = Suc n" by (cases fuel) auto
  with 2 show ?case using pv_null [of W n rest] by simp
next
  case (3 gap indent b)
  then obtain n where "fuel = Suc n" by (cases fuel) auto
  with 3 show ?case using pv_true [of W n rest] pv_false [of W n rest] by (cases b) auto
next
  case (4 gap indent i)
  then obtain n where "fuel = Suc n" by (cases fuel) auto
  with 4 show ?case using pv_num [of W rest n i] by simp
next
  case (5 gap indent s)
  then obtain n where "fuel = Suc n" by (cases fuel) auto
  with 5 show ?case using pv_str [of W n s rest] by simp
next
  case (6 gap indent vs)
  let ?partial = "serialize_elements gap (indent @ gap) vs"
  from "6.prems" have t: "t = wrap ''['' '']'' gap indent ?partial" by simp
  from "6.prems" obtain n where fuel: "fuel = Suc n" by (cases fuel) auto
  show ?case
  proof (cases "vs = []")
    case True
    then have "t = ''[]''" using t by (simp add: wrap_def)
    then show ?thesis using True fuel pv_arr_empty [OF \<open>blank W\<close>, of n rest] by simp
  next
    case False
    then have ne: "?partial \<noteq> []" using elements_length [of gap "indent @ gap" vs] by auto
    from wrap_form [OF ne \<open>blank gap\<close> \<open>blank indent\<close>, of "CHR ''[''" "CHR '']''"]
    obtain W1 W2 W3 where b: "blank W1" "blank W2" "blank W3"
      and w: "t = CHR ''['' # W1 @ join (CHR '','' # W2) ?partial @ W3 @ [CHR '']'']"
      using t by auto
    let ?r = "W1 @ join (CHR '','' # W2) ?partial @ W3 @ CHR '']'' # rest"
    have len: "length (concat ?partial) + 1 < n"
      using "6.prems"(6) fuel w join_length [of ?partial "CHR '','' # W2"] by simp
    have bi: "blank (indent @ gap)" using "6.prems"(1,2) by simp
    have pe: "parse_elements n ?r = Some (jsonify_elements vs, rest)"
      using "6.IH" [OF \<open>blank gap\<close> bi False b len] "6.prems"(7) by simp
    have "\<forall>t \<in> set ?partial. starts_value t"
      using elements_start "6.prems"(7) by auto
    from join_starts [OF ne this, of "CHR '','' # W2" "W3 @ CHR '']'' # rest"]
    obtain c cs where j: "join (CHR '','' # W2) ?partial @ W3 @ CHR '']'' # rest = c # cs"
      and c: "\<not> is_ws c" "c \<noteq> CHR '']''"
      by blast
    have sk: "skip_ws ?r = c # cs"
      using skip_ws_blank [OF b(1) c(1), of cs] j by simp
    have "parse_value (Suc n) (W @ CHR ''['' # ?r) = Some (Arr (jsonify_elements vs), rest)"
      using pv_arr [OF \<open>blank W\<close> sk c(2) pe] .
    then show ?thesis using fuel w by simp
  qed
next
  case (7 gap indent ps)
  let ?partial = "serialize_members gap (indent @ gap) ps"
  from "7.prems" have t: "t = wrap ''{'' ''}'' gap indent ?partial" by simp
  from "7.prems" obtain n where fuel: "fuel = Suc n" by (cases fuel) auto
  show ?case
  proof (cases "?partial = []")
    case True
    then have "t = ''{}''" using t by (simp add: wrap_def)
    then show ?thesis
      using True fuel pv_obj_empty [OF \<open>blank W\<close>, of n rest] members_empty [OF True] by simp
  next
    case False
    from wrap_form [OF False \<open>blank gap\<close> \<open>blank indent\<close>, of "CHR ''{''" "CHR ''}''"]
    obtain W1 W2 W3 where b: "blank W1" "blank W2" "blank W3"
      and w: "t = CHR ''{'' # W1 @ join (CHR '','' # W2) ?partial @ W3 @ [CHR ''}'']"
      using t by auto
    let ?r = "W1 @ join (CHR '','' # W2) ?partial @ W3 @ CHR ''}'' # rest"
    have len: "length (concat ?partial) + 1 < n"
      using "7.prems"(6) fuel w join_length [of ?partial "CHR '','' # W2"] by simp
    have bi: "blank (indent @ gap)" using "7.prems"(1,2) by simp
    have pm: "parse_members n ?r = Some (jsonify_members ps, rest)"
      using "7.IH" [OF \<open>blank gap\<close> bi False b len] "7.prems"(7) by simp
    have "\<forall>t \<in> set ?partial. starts_value t"
      using members_start "7.prems"(7) by auto
    from join_starts [OF False this, of "CHR '','' # W2" "W3 @ CHR ''}'' # rest"]
    obtain c cs where j: "join (CHR '','' # W2) ?partial @ W3 @ CHR ''}'' # rest = c # cs"
      and c: "\<not> is_ws c" "c \<noteq> CHR ''}''"
      by blast
    have sk: "skip_ws ?r = c # cs"
      using skip_ws_blank [OF b(1) c(1), of cs] j by simp
    have "parse_value (Suc n) (W @ CHR ''{'' # ?r) = Some (Obj (jsonify_members ps), rest)"
      using pv_obj [OF \<open>blank W\<close> sk c(2) pm] .
    then show ?thesis using fuel w by simp
  qed
next
  case (8 gap indent f)
  then show ?case by simp
next
  case (9 gap indent s)
  then show ?case by simp
next
  case (10 gap indent)
  then show ?case by simp
next
  case (11 gap indent v vs)
  let ?t1 = "case serialize gap indent v of None \<Rightarrow> ''null'' | Some t \<Rightarrow> t"
  let ?j1 = "case v of Undefined \<Rightarrow> Null | Native f \<Rightarrow> Null | _ \<Rightarrow> jsonify v"
  let ?p = "serialize_elements gap indent vs"
  let ?sep = "CHR '','' # W2"
  from "11.prems" obtain n where fuel: "fuel = Suc n" by (cases fuel) auto
  from "11.prems"(8) have wv: "whole v" and wvs: "whole_elements vs" by simp_all
  have t1_ne: "?t1 \<noteq> []"
    using serialize_starts [of gap indent v] wv
    by (cases "serialize gap indent v") (auto simp: starts_value_def)
  have first: "parse_value n (W1 @ ?t1 @ rest') = Some (?j1, rest')"
    if e: "ends_number rest'" and l: "length ?t1 < n" for rest'
  proof (cases "serialize gap indent v")
    case None
    then have v: "v = Undefined \<or> (\<exists>f. v = Native f)" by (simp add: serialize_None)
    from l obtain m where "n = Suc m" by (cases n) auto
    then show ?thesis using None v pv_null [OF \<open>blank W1\<close>, of m rest'] by auto
  next
    case (Some t')
    then have "v \<noteq> Undefined" "\<forall>f. v \<noteq> Native f" by auto
    then have j: "?j1 = jsonify v" by (cases v) auto
    from l Some have "length t' < n" by simp
    from "11.IH"(1) [OF \<open>blank gap\<close> \<open>blank indent\<close> Some \<open>blank W1\<close> e this wv]
    show ?thesis using Some j by simp
  qed
  show ?case
  proof (cases "vs = []")
    case True
    have l: "length ?t1 < n" using "11.prems"(7) fuel True by simp
    have "parse_value n (W1 @ ?t1 @ (W3 @ CHR '']'' # rest)) = Some (?j1, W3 @ CHR '']'' # rest)"
      using first [OF ends_number_blank [OF \<open>blank W3\<close>] l] by simp
    moreover have "skip_ws (W3 @ CHR '']'' # rest) = CHR '']'' # rest"
      using skip_ws_mark [OF \<open>blank W3\<close>] by simp
    ultimately have "parse_elements (Suc n) (W1 @ ?t1 @ (W3 @ CHR '']'' # rest)) = Some ([?j1], rest)"
      by (rule pe_last)
    then show ?thesis using True fuel by simp
  next
    case False
    then have ne: "?p \<noteq> []" using elements_length [of gap indent vs] by auto
    have l0: "1 \<le> length ?t1" using t1_ne by (simp add: Suc_le_eq)
    have pre: "length ?t1 + length (concat ?p) + 1 < Suc n" using "11.prems"(7) fuel by simp
    have l: "length ?t1 < n" using pre by linarith
    have l2: "length (concat ?p) + 1 < n" using pre l0 by linarith
    let ?r' = "W2 @ join ?sep ?p @ W3 @ CHR '']'' # rest"
    have "ends_number (CHR '','' # ?r')" by (simp add: ends_number_def)
    from first [OF this l]
    have a: "parse_value n (W1 @ ?t1 @ (CHR '','' # ?r')) = Some (?j1, CHR '','' # ?r')" .
    have b: "skip_ws (CHR '','' # ?r') = CHR '','' # ?r'"
      using skip_ws_mark [of "[]" "CHR '',''" ?r'] by simp
    have c: "parse_elements n ?r' = Some (jsonify_elements vs, rest)"
      using "11.IH"(2) [OF \<open>blank gap\<close> \<open>blank indent\<close> False \<open>blank W2\<close> \<open>blank W2\<close> \<open>blank W3\<close> l2 wvs] .
    have "parse_elements (Suc n) (W1 @ ?t1 @ (CHR '','' # ?r')) = Some (?j1 # jsonify_elements vs, rest)"
      using a b c by (rule pe_more)
    then show ?thesis using fuel ne by (simp add: join_Cons)
  qed
next
  case (12 gap indent)
  then show ?case by simp
next
  case (13 gap indent k v ps)
  let ?p = "serialize_members gap indent ps"
  let ?sep = "CHR '','' # W2"
  from "13.prems" obtain n where fuel: "fuel = Suc n" by (cases fuel) auto
  from "13.prems"(8) have wv: "whole v" and wps: "whole_members ps" by simp_all
  show ?case
  proof (cases "serialize gap indent v")
    case None
    then have v: "v = Undefined \<or> (\<exists>f. v = Native f)" by (simp add: serialize_None)
    from None "13.prems" have ne: "?p \<noteq> []" and l: "length (concat ?p) + 1 < fuel" by simp_all
    from "13.IH"(2) [OF None \<open>blank gap\<close> \<open>blank indent\<close> ne \<open>blank W1\<close> \<open>blank W2\<close> \<open>blank W3\<close> l wps]
    show ?thesis using None v by auto
  next
    case (Some t')
    then have "v \<noteq> Undefined" "\<forall>f. v \<noteq> Native f" by auto
    then have jm: "jsonify_members ((k, v) # ps) = (k, jsonify v) # jsonify_members ps"
      by (cases v) auto
    let ?sp = "if gap = [] then [] else '' ''"
    let ?m1 = "quote k @ '':'' @ ?sp @ t'"
    have sm: "serialize_members gap indent ((k, v) # ps) = ?m1 # ?p" using Some by simp
    have bsp: "blank ?sp" by (simp add: is_ws_def)
    have lt: "length t' < n" using "13.prems"(7) fuel sm by simp
    have val: "parse_value n (?sp @ t' @ rest') = Some (jsonify v, rest')"
      if "ends_number rest'" for rest'
      using "13.IH"(1) [OF \<open>blank gap\<close> \<open>blank indent\<close> Some bsp that lt wv] .
    show ?thesis
    proof (cases "?p = []")
      case True
      have "parse_value n (?sp @ t' @ (W3 @ CHR ''}'' # rest))
              = Some (jsonify v, W3 @ CHR ''}'' # rest)"
        using val [OF ends_number_blank [OF \<open>blank W3\<close>]] by simp
      moreover have "skip_ws (W3 @ CHR ''}'' # rest) = CHR ''}'' # rest"
        using skip_ws_mark [OF \<open>blank W3\<close>] by simp
      ultimately have "parse_members (Suc n)
             (W1 @ quote k @ CHR '':'' # (?sp @ t' @ (W3 @ CHR ''}'' # rest)))
           = Some ([(k, jsonify v)], rest)"
        by (rule pm_last [OF \<open>blank W1\<close>])
      then show ?thesis using True fuel sm jm members_empty [OF True] by simp
    next
      case False
      have l2: "length (concat ?p) + 1 < n"
        using "13.prems"(7) fuel sm by (simp add: quote_def)
      let ?r' = "W2 @ join ?sep ?p @ W3 @ CHR ''}'' # rest"
      have "ends_number (CHR '','' # ?r')" by (simp add: ends_number_def)
      from val [OF this]
      have a: "parse_value n (?sp @ t' @ (CHR '','' # ?r')) = Some (jsonify v, CHR '','' # ?r')" .
      have b: "skip_ws (CHR '','' # ?r') = CHR '','' # ?r'"
        using skip_ws_mark [of "[]" "CHR '',''" ?r'] by simp
      have c: "parse_members n ?r' = Some (jsonify_members ps, rest)"
        using "13.IH"(3) [OF Some \<open>blank gap\<close> \<open>blank indent\<close> False \<open>blank W2\<close> \<open>blank W2\<close> \<open>blank W3\<close> l2 wps] .
      have "parse_members (Suc n) (W1 @ quote k @ CHR '':'' # (?sp @ t' @ (CHR '','' # ?r')))
              = Some ((k, jsonify v) # jsonify_members ps, rest)"
        using a b c by (rule pm_more [OF \<open>blank W1\<close>])
      then show ?thesis using fuel sm jm False by (simp add: join_Cons)
    qed
  qed
qed


text \<open>
  Every text that the serializer writes of a value whose numbers are integers, with any
  indentation of white space, parses to the document of the value.
\<close>

theorem JSON_parse_stringify:
  assumes "serialize gap [] v = Some t" and "blank gap" and "whole v"
  shows "JSON_parse t = Inr (jsonify v)"
proof -
  have "parse_value (2 * length t + 2) ([] @ t @ []) = Some (jsonify v, [])"
    by (rule roundtrip(1) [OF assms(2) _ assms(1)]) (simp_all add: ends_number_def assms(3))
  then show ?thesis by (simp add: JSON_parse_def skip_ws_def)
qed

section \<open>Properties of the API client\<close>

subsection \<open>One request\<close>

lemma request_answered:
  assumes "upstream w = Responds response # rest"
  shows "request tokens endpoint method body w =
     (if \<not> ok response then
        (case JSON_parse (body_text response) of
           Inl e \<Rightarrow> Inl (Error (''LinkedIn API Error ('' @ show_int (status response)
                                      @ ''): '' @ body_text response))
         | Inr error \<Rightarrow>
             (case get_prop error ''message'' of
                Inl e \<Rightarrow> Inl e
              | Inr message \<Rightarrow>
                  (if js_truthy message \<and> \<not> printable message then Inl TypeError
                   else Inl (Error (''LinkedIn API Error (''
                                      @ show_int (status response) @ ''): ''
                                      @ (if js_truthy message then js_to_string message
                                         else body_text response))))))
      else if body_text response = [] then Inr (Obj [])
      else JSON_parse (body_text response),
      w\<lparr>exchanges := exchanges w @
          [(\<lparr>call_url = (if startsWith ''http'' endpoint then endpoint else API_BASE @ endpoint),
             call_method = method,
             call_headers =
                          [(''Authorization'', ''Bearer '' @ access_token tokens),
                           (''Content-Type'', ''application/json''),
                           (''X-Restli-Protocol-Version'', ''2.0.0''),
                           (''LinkedIn-Version'', ''202401'')],
             call_body = body\<rparr>, Responds response)],
         upstream := rest\<rparr>)"
  using assms
  by (simp add: request_def await_def fetch_def Let_def throw_def return_def template_def
      split: sum.splits)

lemma JSON_parse_error: "JSON_parse t = Inl e \<Longrightarrow> e = SyntaxError"
  by (auto simp: JSON_parse_def split: option.splits if_splits)

lemma number_of_defined: "number_of negative m e \<noteq> Undefined"
  by (simp add: number_of_def split: prod.splits double.splits)

lemma parse_number_defined: "parse_number cs = Some (v, rest) \<Longrightarrow> v \<noteq> Undefined"
  by (auto simp: parse_number_def parse_decimal_def number_of_defined
      split: list.splits if_splits option.splits)

lemma parse_value_defined: "parse_value n cs = Some (v, rest) \<Longrightarrow> v \<noteq> Undefined"
  by (cases n)
     (auto simp: parse_literal_def parse_number_defined
       split: list.splits if_splits option.splits)

lemma JSON_parse_defined: "JSON_parse t = Inr v \<Longrightarrow> v \<noteq> Undefined"
  by (auto simp: JSON_parse_def simp del: parse_value.simps
      split: option.splits if_splits dest: parse_value_defined)

lemma get_prop_defined:
  "v \<noteq> Undefined \<Longrightarrow> v \<noteq> Null \<Longrightarrow> \<exists>m. get_prop v k = Inr m"
  by (cases v) simp_all

lemma unauthorized_body_parse:
  "JSON_parse unauthorized_body = Inr (Obj [(''message'', Str ''Unauthorized'')])"
  by code_simp

text \<open>
  Three bodies of a response with status 400: a \<open>message\<close> that is a number with a
  fraction is written as the platform writes it; the body \<open>null\<close> parses, and reading its
  \<open>message\<close> throws a TypeError outside the \<open>try\<close>; so does the template literal for a
  \<open>message\<close> that has no text.
\<close>

lemma request_decimal_message:
  "fst (request token3600 ''/ugcPosts'' POST None
          (world_of [response_of 400 ''Bad Request'' (''{'' @ quote ''message'' @ '':1.5}'')]))
     = Inl (Error ''LinkedIn API Error (400): 1.5'')"
  by code_simp

lemma request_null_body:
  "fst (request token3600 ''/ugcPosts'' POST None
          (world_of [response_of 400 ''Bad Request'' ''null'']))
     = Inl TypeError"
  by code_simp

lemma request_message_without_text:
  "fst (request token3600 ''/ugcPosts'' POST None
          (world_of [response_of 400 ''Bad Request''
             (''{'' @ quote ''message'' @ '':{'' @ quote ''toString'' @ '':1}}'')]))
     = Inl TypeError"
  by code_simp

text \<open>
  C8 (as stated). The claim says that a call fails if and only if the status is not
  2xx. A response with status 200 whose body is not JSON fails too: \<open>JSON.parse\<close>
  throws a SyntaxError, which \<open>request\<close> does not catch.
\<close>

theorem request_2xx_fails_counterexample:
  "ok \<lparr>status = 200, statusText = ''OK'', body_text = ''<html>''\<rparr>
   \<and> fst (request token3600 ''/ugcPosts'' POST None
             (world_of [response_of 200 ''OK'' ''<html>''])) = Inl SyntaxError"
  by code_simp

text \<open>
  C8 (amended). For every call of \<open>request\<close> that the upstream answers: a status that
  is not 2xx makes the call fail. When the body of such a response is not JSON, the
  error carries the status and the raw text of the body. When the body is JSON for a
  value other than \<open>null\<close>, the error carries the status and a message: the text of the
  \<open>message\<close> of that value when that is truthy and has a text (as every string, number
  and boolean has), and the raw text of the body when it is absent or falsy. A 2xx
  response with an empty body yields the empty object, never a parse error. A 2xx
  response with another body yields what the body parses to, and fails with a
  SyntaxError when the body is not JSON.
\<close>

theorem request_status_and_body:
  assumes "upstream w = Responds response # rest"
  shows "(\<not> ok response \<longrightarrow> (\<exists>e. fst (request tokens endpoint method body w) = Inl e))
   \<and> (\<not> ok response \<and> JSON_parse (body_text response) = Inl SyntaxError \<longrightarrow>
        fst (request tokens endpoint method body w)
          = Inl (Error (''LinkedIn API Error ('' @ show_int (status response) @ ''): ''
                        @ body_text response)))
   \<and> (\<not> ok response \<and> JSON_parse (body_text response) = Inr v \<and> v \<noteq> Null \<longrightarrow>
        (\<exists>m. get_prop v ''message'' = Inr m
           \<and> (js_truthy m \<and> printable m \<longrightarrow>
                fst (request tokens endpoint method body w)
                  = Inl (Error (''LinkedIn API Error ('' @ show_int (status response) @ ''): ''
                                @ js_to_string m)))
           \<and> (\<not> js_truthy m \<longrightarrow>
                fst (request tokens endpoint method body w)
                  = Inl (Error (''LinkedIn API Error ('' @ show_int (status response) @ ''): ''
                                @ body_text response)))))
   \<and> (ok response \<and> body_text response = [] \<longrightarrow>
        fst (request tokens endpoint method body w) = Inr (Obj []))
   \<and> (ok response \<and> body_text response \<noteq> [] \<longrightarrow>
        fst (request tokens endpoint method body w) = JSON_parse (body_text response))"
proof -
  have a: "\<not> ok response \<longrightarrow> (\<exists>e. fst (request tokens endpoint method body w) = Inl e)"
    by (auto simp: request_answered [OF assms] split: sum.splits)
  have b: "\<not> ok response \<and> JSON_parse (body_text response) = Inl SyntaxError \<longrightarrow>
        fst (request tokens endpoint method body w)
          = Inl (Error (''LinkedIn API Error ('' @ show_int (status response) @ ''): ''
                        @ body_text response))"
    by (simp add: request_answered [OF assms])
  have c: "\<not> ok response \<and> JSON_parse (body_text response) = Inr v \<and> v \<noteq> Null \<longrightarrow>
        (\<exists>m. get_prop v ''message'' = Inr m
           \<and> (js_truthy m \<and> printable m \<longrightarrow>
                fst (request tokens endpoint method body w)
                  = Inl (Error (''LinkedIn API Error ('' @ show_int (status response) @ ''): ''
                                @ js_to_string m)))
           \<and> (\<not> js_truthy m \<longrightarrow>
                fst (request tokens endpoint method body w)
                  = Inl (Error (''LinkedIn API Error ('' @ show_int (status response) @ ''): ''
                                @ body_text response))))"
  proof
    assume h: "\<not> ok response \<and> JSON_parse (body_text response) = Inr v \<and> v \<noteq> Null"
    then have "v \<noteq> Undefined" using JSON_parse_defined by blast
    with h obtain m where m: "get_prop v ''message'' = Inr m"
      using get_prop_defined by blast
    from h m have t: "js_truthy m \<and> printable m \<longrightarrow>
                fst (request tokens endpoint method body w)
                  = Inl (Error (''LinkedIn API Error ('' @ show_int (status response) @ ''): ''
                                @ js_to_string m))"
      by (simp add: request_answered [OF assms])
    from h m have f: "\<not> js_truthy m \<longrightarrow>
                fst (request tokens endpoint method body w)
                  = Inl (Error (''LinkedIn API Error ('' @ show_int (status response) @ ''): ''
                                @ body_text response))"
      by (simp add: request_answered [OF assms])
    from m t f show "\<exists>m. get_prop v ''message'' = Inr m
           \<and> (js_truthy m \<and> printable m \<longrightarrow>
                fst (request tokens endpoint method body w)
                  = Inl (Error (''LinkedIn API Error ('' @ show_int (status response) @ ''): ''
                                @ js_to_string m)))
           \<and> (\<not> js_truthy m \<longrightarrow>
                fst (request tokens endpoint method body w)
                  = Inl (Error (''LinkedIn API Error ('' @ show_int (status response) @ ''): ''
                                @ body_text response)))"
      by blast
  qed
  have d: "ok response \<and> body_text response = [] \<longrightarrow>
        fst (request tokens endpoint method body w) = Inr (Obj [])"
    by (simp add: request_answered [OF assms])
  have e: "ok response \<and> body_text response \<noteq> [] \<longrightarrow>
        fst (request tokens endpoint method body w) = JSON_parse (body_text response)"
    by (simp add: request_answered [OF assms])
  from a b c d e show ?thesis by blast
qed

theorem request_status_and_body_witness:
  "upstream (world_of [response_of 401 ''Unauthorized'' unauthorized_body])
     = Responds \<lparr>status = 401, statusText = ''Unauthorized'', body_text = unauthorized_body\<rparr> # []
   \<and> \<not> ok \<lparr>status = 401, statusText = ''Unauthorized'', body_text = unauthorized_body\<rparr>
   \<and> JSON_parse unauthorized_body = Inr (Obj [(''message'', Str ''Unauthorized'')])
   \<and> fst (request token3600 ''/ugcPosts'' POST None
             (world_of [response_of 401 ''Unauthorized'' unauthorized_body]))
       = Inl (Error ''LinkedIn API Error (401): Unauthorized'')"
proof -
  let ?r = "\<lparr>status = 401, statusText = ''Unauthorized'', body_text = unauthorized_body\<rparr>"
  have u: "upstream (world_of [response_of 401 ''Unauthorized'' unauthorized_body])
             = Responds ?r # []"
    by (simp add: world_of_def response_of_def)
  have n: "\<not> ok ?r" by (simp add: ok_def)
  have p: "JSON_parse (body_text ?r) = Inr (Obj [(''message'', Str ''Unauthorized'')])"
    by (simp add: unauthorized_body_parse)
  have s: "show_int 401 = ''401''" by code_simp
  from request_status_and_body
         [OF u, of token3600 "''/ugcPosts''" POST None
            "Obj [(''message'', Str ''Unauthorized'')]"] n p
  have "fst (request token3600 ''/ugcPosts'' POST None
             (world_of [response_of 401 ''Unauthorized'' unauthorized_body]))
       = Inl (Error (''LinkedIn API Error ('' @ show_int (status ?r) @ ''): ''
                     @ js_to_string (Str ''Unauthorized'')))"
    by auto
  then show ?thesis using u n s p by simp
qed

subsection \<open>Posts\<close>

lemma request_exchange:
  "\<exists>answer. exchanges (snd (request tokens endpoint method body w)) = exchanges w @
     [(\<lparr>call_url = (if startsWith ''http'' endpoint then endpoint else API_BASE @ endpoint),
        call_method = method,
        call_headers =
          [(''Authorization'', ''Bearer '' @ access_token tokens),
           (''Content-Type'', ''application/json''),
           (''X-Restli-Protocol-Version'', ''2.0.0''),
           (''LinkedIn-Version'', ''202401'')],
        call_body = body\<rparr>, answer)]"
  by (auto simp: request_def await_def fetch_def Let_def throw_def return_def
      split: sum.splits list.splits fetch_result.splits)

lemma serialize_jsonify:
  "serialize gap ind (jsonify v) = serialize gap ind v"
  "serialize_elements gap ind (jsonify_elements vs) = serialize_elements gap ind vs"
  "serialize_members gap ind (jsonify_members ps) = serialize_members gap ind ps"
proof (induction gap ind v and gap ind vs and gap ind ps
      rule: serialize_serialize_elements_serialize_members.induct)
  case (11 gap indent v vs)
  then show ?case by (cases v) simp_all
next
  case (13 gap indent k v ps)
  then show ?case by (cases v) simp_all
qed simp_all

lemma payload_category:
  "get_path (jsonify (createPost_payload urn options)) (share_content @ [''shareMediaCategory''])
     = Inr (Str (if truthy (articleUrl options) then ''ARTICLE'' else ''NONE''))"
  by (simp add: createPost_payload_def share_content_def)

lemma payload_media_none:
  "\<not> truthy (articleUrl options) \<Longrightarrow>
   get_path (jsonify (createPost_payload urn options)) (share_content @ [''media''])
     = Inr Undefined"
  by (simp add: createPost_payload_def share_content_def)

lemma payload_media_some:
  "truthy (articleUrl options) \<Longrightarrow>
   \<exists>m. get_path (jsonify (createPost_payload urn options)) (share_content @ [''media''])
         = Inr (Arr [m])
     \<and> (has_prop m ''title'' \<longleftrightarrow> truthy (articleTitle options))
     \<and> (has_prop m ''description'' \<longleftrightarrow> truthy (articleDescription options))"
  by (simp add: createPost_payload_def share_content_def text_or_undefined_def has_prop_def)

lemma payload_text:
  "\<exists>body. JSON_stringify (createPost_payload urn options) = Some body
     \<and> JSON_parse body = Inr (jsonify (createPost_payload urn options))"
proof -
  obtain body where body: "serialize [] [] (createPost_payload urn options) = Some body"
    by (simp add: createPost_payload_def)
  then have "JSON_parse body = Inr (jsonify (createPost_payload urn options))"
    by (rule JSON_parse_stringify) (simp_all add: createPost_payload_def text_or_undefined_def)
  with body show ?thesis by (simp add: JSON_stringify_def)
qed

lemma createPost_body:
  assumes "getMemberUrn tokens w = (Inr urn, w1)"
  shows "\<exists>call answer body.
     exchanges (snd (createPost tokens options w)) = exchanges w1 @ [(call, answer)]
     \<and> call_url call = ''https://api.linkedin.com/v2/ugcPosts''
     \<and> call_method call = POST
     \<and> call_body call = Some body
     \<and> JSON_parse body = Inr (jsonify (createPost_payload urn options))"
proof -
  obtain body where body: "JSON_stringify (createPost_payload urn options) = Some body"
    and doc: "JSON_parse body = Inr (jsonify (createPost_payload urn options))"
    using payload_text by blast
  have run: "createPost tokens options w = request tokens ''/ugcPosts'' POST (Some body) w1"
    using assms body by (simp add: createPost_def await_def)
  define call where "call = \<lparr>call_url =
          (if startsWith ''http'' ''/ugcPosts'' then ''/ugcPosts'' else API_BASE @ ''/ugcPosts''),
        call_method = POST,
        call_headers =
          [(''Authorization'', ''Bearer '' @ access_token tokens),
           (''Content-Type'', ''application/json''),
           (''X-Restli-Protocol-Version'', ''2.0.0''),
           (''LinkedIn-Version'', ''202401'')],
        call_body = Some body\<rparr>"
  from request_exchange [of tokens "''/ugcPosts''" POST "Some body" w1]
  obtain answer where
    "exchanges (snd (request tokens ''/ugcPosts'' POST (Some body) w1))
       = exchanges w1 @ [(call, answer)]"
    unfolding call_def by blast
  with run have e: "exchanges (snd (createPost tokens options w)) = exchanges w1 @ [(call, answer)]"
    by simp
  have "call_url call = ''https://api.linkedin.com/v2/ugcPosts''" "call_method call = POST"
    "call_body call = Some body"
    by (simp_all add: call_def startsWith_def API_BASE_def)
  with e doc show ?thesis by blast
qed

text \<open>
  C6 (as stated). The claim says that the serialized payload has a media title exactly
  when \<open>articleTitle\<close> is supplied. Without \<open>articleUrl\<close> the payload has no media at
  all, whatever title is supplied: it is the payload of the plain post.
\<close>

theorem title_without_url_counterexample:
  "articleTitle title_only_options = Some ''A title''
   \<and> get_path (jsonify (createPost_payload ''urn:li:person:42'' title_only_options))
        (share_content @ [''media'']) = Inr Undefined
   \<and> JSON_stringify (createPost_payload ''urn:li:person:42'' title_only_options)
       = JSON_stringify (createPost_payload ''urn:li:person:42'' hi_options)
   \<and> map_option JSON_parse
         (JSON_stringify (createPost_payload ''urn:li:person:42'' title_only_options))
       = Some (Inr (Obj [(''author'', Str ''urn:li:person:42''),
            (''lifecycleState'', Str ''PUBLISHED''),
            (''visibility'',
               Obj [(''com.linkedin.ugc.MemberNetworkVisibility'', Str ''PUBLIC'')]),
            (''specificContent'',
               Obj [(''com.linkedin.ugc.ShareContent'',
                     Obj [(''shareCommentary'', Obj [(''text'', Str ''hi'')]),
                          (''shareMediaCategory'', Str ''NONE'')])])]))"
proof -
  have "map_option JSON_parse
         (JSON_stringify (createPost_payload ''urn:li:person:42'' title_only_options))
       = Some (Inr (Obj [(''author'', Str ''urn:li:person:42''),
            (''lifecycleState'', Str ''PUBLISHED''),
            (''visibility'',
               Obj [(''com.linkedin.ugc.MemberNetworkVisibility'', Str ''PUBLIC'')]),
            (''specificContent'',
               Obj [(''com.linkedin.ugc.ShareContent'',
                     Obj [(''shareCommentary'', Obj [(''text'', Str ''hi'')]),
                          (''shareMediaCategory'', Str ''NONE'')])])]))"
    by code_simp
  then show ?thesis
    by (simp add: title_only_options_def hi_options_def createPost_payload_def
        share_content_def JSON_stringify_def)
qed

text \<open>
  C6 (amended). For every \<open>CreatePostOptions\<close>, the body that \<open>createPost\<close> sends is
  a JSON text of the document \<open>jsonify payload\<close>. In that document the media
  category is \<open>ARTICLE\<close> when \<open>articleUrl\<close> is set and not empty, and \<open>NONE\<close> otherwise.
  With such an \<open>articleUrl\<close> the document has one media entry, which has a title
  exactly when \<open>articleTitle\<close> is supplied and not empty, and a description exactly when
  \<open>articleDescription\<close> is; without it the document has no media.
\<close>

theorem createPost_payload_article:
  "(getMemberUrn tokens w = (Inr urn, w1) \<longrightarrow>
      (\<exists>call answer body.
         exchanges (snd (createPost tokens options w)) = exchanges w1 @ [(call, answer)]
         \<and> call_url call = ''https://api.linkedin.com/v2/ugcPosts''
         \<and> call_method call = POST
         \<and> call_body call = Some body
         \<and> JSON_parse body = Inr (jsonify (createPost_payload urn options))))
   \<and> get_path (jsonify (createPost_payload urn options))
         (share_content @ [''shareMediaCategory''])
       = Inr (Str (if truthy (articleUrl options) then ''ARTICLE'' else ''NONE''))
   \<and> (truthy (articleUrl options) \<longrightarrow>
        (\<exists>m. get_path (jsonify (createPost_payload urn options)) (share_content @ [''media''])
               = Inr (Arr [m])
           \<and> (has_prop m ''title'' \<longleftrightarrow> truthy (articleTitle options))
           \<and> (has_prop m ''description'' \<longleftrightarrow> truthy (articleDescription options))))
   \<and> (\<not> truthy (articleUrl options) \<longrightarrow>
        get_path (jsonify (createPost_payload urn options)) (share_content @ [''media''])
          = Inr Undefined)"
  using createPost_body payload_category payload_media_none payload_media_some
  by blast

theorem createPost_payload_article_witness:
  "truthy (articleUrl article_options)
   \<and> truthy (articleTitle article_options)
   \<and> \<not> truthy (articleDescription article_options)
   \<and> get_path (jsonify (createPost_payload ''urn:li:person:42'' article_options))
         (share_content @ [''shareMediaCategory'']) = Inr (Str ''ARTICLE'')
   \<and> (\<exists>m. get_path (jsonify (createPost_payload ''urn:li:person:42'' article_options))
              (share_content @ [''media'']) = Inr (Arr [m])
          \<and> has_prop m ''title'' \<and> \<not> has_prop m ''description'')"
proof -
  have h: "truthy (articleUrl article_options)" "truthy (articleTitle article_options)"
    "\<not> truthy (articleDescription article_options)"
    by (simp_all add: article_options_def)
  from createPost_payload_article [of _ _ "''urn:li:person:42''" _ article_options] h
  show ?thesis by simp
qed

text \<open>
  C7. For every organization id and post options, \<open>createOrganizationPost\<close> issues
  exactly one call: the POST to \<open>/ugcPosts\<close>, whose body is a JSON text with the
  author \<open>urn:li:organization:\<close> followed by the id. It issues no call to the identity
  endpoint.
\<close>

theorem createOrganizationPost_author:
  "\<exists>call answer body doc.
      issued w (snd (createOrganizationPost tokens organizationId options w)) = [(call, answer)]
      \<and> call_url call = ''https://api.linkedin.com/v2/ugcPosts''
      \<and> call_method call = POST
      \<and> call_body call = Some body
      \<and> JSON_parse body = Inr doc
      \<and> get_prop doc ''author'' = Inr (Str (''urn:li:organization:'' @ organizationId))
      \<and> call_url call \<noteq> USERINFO_URL"
proof -
  define payload where "payload =
     Obj [(''author'', Str (''urn:li:organization:'' @ organizationId)),
          (''lifecycleState'', Str ''PUBLISHED''),
                    (''visibility'',
                       Obj [(''com.linkedin.ugc.MemberNetworkVisibility'',
                             Str (to_text (or_else (visibility options) (Some ''PUBLIC''))))]),
                    (''specificContent'',
                       Obj [(''com.linkedin.ugc.ShareContent'',
                             Obj [(''shareCommentary'',
                                     Obj [(''text'', Str (post_text options))]),
                                  (''shareMediaCategory'', Str ''NONE'')])])]"
  obtain body where body: "JSON_stringify payload = Some body"
    by (simp add: JSON_stringify_def payload_def)
  then have "JSON_parse body = Inr (jsonify payload)"
    unfolding JSON_stringify_def by (rule JSON_parse_stringify) (simp_all add: payload_def)
  moreover have "get_prop (jsonify payload) ''author''
                   = Inr (Str (''urn:li:organization:'' @ organizationId))"
    by (simp add: payload_def)
  ultimately have doc: "\<exists>doc. JSON_parse body = Inr doc
      \<and> get_prop doc ''author'' = Inr (Str (''urn:li:organization:'' @ organizationId))"
    by simp
  define url where
    "url = (if startsWith ''http'' ''/ugcPosts'' then ''/ugcPosts'' else API_BASE @ ''/ugcPosts'')"
  have url: "url = ''https://api.linkedin.com/v2/ugcPosts''"
    by (simp add: url_def startsWith_def API_BASE_def)
  have run: "createOrganizationPost tokens organizationId options w
               = request tokens ''/ugcPosts'' POST (Some body) w"
    by (simp add: createOrganizationPost_def body [symmetric] payload_def Let_def)
  define call where "call = \<lparr>call_url = url, call_method = POST,
          call_headers =
            [(''Authorization'', ''Bearer '' @ access_token tokens),
             (''Content-Type'', ''application/json''),
             (''X-Restli-Protocol-Version'', ''2.0.0''),
             (''LinkedIn-Version'', ''202401'')],
          call_body = Some body\<rparr>"
  from request_exchange [of tokens "''/ugcPosts''" POST "Some body" w]
  obtain answer where
    "exchanges (snd (request tokens ''/ugcPosts'' POST (Some body) w))
       = exchanges w @ [(call, answer)]"
    unfolding url_def call_def by blast
  with run have i:
    "issued w (snd (createOrganizationPost tokens organizationId options w)) = [(call, answer)]"
    by (simp add: issued_def)
  have c1: "call_url call = ''https://api.linkedin.com/v2/ugcPosts''"
    and c2: "call_method call = POST"
    and c3: "call_body call = Some body"
    by (simp_all add: call_def url)
  have c4: "call_url call \<noteq> USERINFO_URL"
    by (simp add: c1 USERINFO_URL_def)
  from i c1 c2 c3 c4 doc show ?thesis by blast
qed

lemma createOrganizationPost_777:
  "map (\<lambda>(call, answer). (call_url call, call_method call,
          case call_body call of None \<Rightarrow> Inl SyntaxError | Some t \<Rightarrow>
            (case JSON_parse t of Inl e \<Rightarrow> Inl e | Inr doc \<Rightarrow> get_prop doc ''author'')))
     (exchanges (snd (createOrganizationPost token3600 ''777'' hi_options (world_of []))))
   = [(''https://api.linkedin.com/v2/ugcPosts'', POST, Inr (Str ''urn:li:organization:777''))]"
  by code_simp

subsection \<open>The image pipeline\<close>

lemma issuedI: "exchanges w' = exchanges w @ xs \<Longrightarrow> issued w w' = xs"
  by (simp add: issued_def)

lemma conforms_return: "conforms (return x) w []"
  by (simp add: conforms_def return_def issued_def phases_def all_ok_def)

lemma conforms_throw: "conforms (throw e) w []"
  by (simp add: conforms_def throw_def issued_def phases_def all_ok_def)

lemma conforms_lift: "conforms (lift r) w []"
  by (cases r) (simp_all add: lift_def conforms_return conforms_throw)

lemma all_ok_append: "all_ok (xs @ ys) = (all_ok xs \<and> all_ok ys)"
  by (simp add: all_ok_def)

lemma all_ok_butlast: "all_ok xs \<Longrightarrow> all_ok (butlast xs)"
  by (auto simp: all_ok_def list_all_iff dest: in_set_butlastD)

lemma phases_append: "phases (xs @ ys) = phases xs @ phases ys"
  by (simp add: phases_def)

lemma conforms_await:
  assumes m: "conforms m w E1"
    and k: "\<And>x w1. m w = (Inr x, w1) \<Longrightarrow> conforms (k x) w1 E2"
  shows "conforms (await m k) w (E1 @ E2)"
proof (cases "m w")
  case (Pair r w1)
  show ?thesis
  proof (cases r)
    case (Inl e)
    with Pair m show ?thesis
      by (auto simp: conforms_def await_def)
  next
    case (Inr x)
    with Pair have mw: "m w = (Inr x, w1)" by simp
    obtain r2 w2 where kw: "k x w1 = (r2, w2)" by (cases "k x w1")
    from m mw have e1: "exchanges w1 = exchanges w @ issued w w1"
      and d1: "disk w1 = disk w" "env_HOME w1 = env_HOME w"
      and p1: "phases (issued w w1) = E1" and o1: "all_ok (issued w w1)"
      by (simp_all add: conforms_def)
    from k [OF mw] kw have e2: "exchanges w2 = exchanges w1 @ issued w1 w2"
      and d2: "disk w2 = disk w1" "env_HOME w2 = env_HOME w1"
      and c2: "case r2 of
              Inr x \<Rightarrow> phases (issued w1 w2) = E2 \<and> all_ok (issued w1 w2)
            | Inl e \<Rightarrow> prefix (phases (issued w1 w2)) E2 \<and> all_ok (butlast (issued w1 w2))"
      by (simp_all add: conforms_def)
    from e1 e2 have e: "exchanges w2 = exchanges w @ (issued w w1 @ issued w1 w2)" by simp
    then have i: "issued w w2 = issued w w1 @ issued w1 w2"
      by (rule issuedI)
    have aw: "await m k w = (r2, w2)" using mw kw by (simp add: await_def)
    show ?thesis
    proof (cases r2)
      case (Inl e')
      with c2 have pr: "prefix (phases (issued w1 w2)) E2"
        and ob: "all_ok (butlast (issued w1 w2))" by simp_all
      have "all_ok (butlast (issued w w2))"
        using o1 ob
        by (cases "issued w1 w2 = []") (simp_all add: i butlast_append all_ok_append all_ok_butlast)
      moreover have "prefix (phases (issued w w2)) (E1 @ E2)"
        using pr p1 by (simp add: i phases_append)
      ultimately show ?thesis using aw Inl e i d1 d2
        by (simp add: conforms_def)
    next
      case (Inr y)
      with c2 p1 o1 aw e i d1 d2 show ?thesis
        by (simp add: conforms_def phases_append all_ok_append)
    qed
  qed
qed


lemma conforms_fetch:
  assumes pure: "\<And>r w1. snd (K r w1) = w1"
    and fails: "\<And>r w1. \<not> ok r \<Longrightarrow> isl (fst (K r w1))"
  shows "conforms (await (fetch call) K) w [phase_of call]"
proof (cases "upstream w")
  case Nil
  then show ?thesis
    by (simp add: conforms_def await_def fetch_def issued_def phases_def all_ok_def)
next
  case (Cons a rs)
  show ?thesis
  proof (cases a)
    case NetworkFailure
    with Cons show ?thesis
      by (simp add: conforms_def await_def fetch_def issued_def phases_def all_ok_def)
  next
    case (Responds r)
    let ?w1 = "w\<lparr>exchanges := exchanges w @ [(call, Responds r)], upstream := rs\<rparr>"
    obtain res w2 where kr: "K r ?w1 = (res, w2)" by (cases "K r ?w1")
    with pure [of r ?w1] have w2: "w2 = ?w1" by simp
    have aw: "await (fetch call) K w = (res, ?w1)"
      using Cons Responds kr w2 by (simp add: await_def fetch_def)
    have i: "issued w ?w1 = [(call, Responds r)]" by (rule issuedI) simp
    show ?thesis
    proof (cases "ok r")
      case True
      then show ?thesis using aw i
        by (cases res) (simp_all add: conforms_def phases_def all_ok_def)
    next
      case False
      from fails [OF False, of ?w1] kr obtain e where "res = Inl e" by (cases res) auto
      then show ?thesis using aw i
        by (simp add: conforms_def phases_def all_ok_def)
    qed
  qed
qed

lemma conforms_request:
  "conforms (request tokens endpoint method body) w
     [phase_of \<lparr>call_url = (if startsWith ''http'' endpoint then endpoint else API_BASE @ endpoint),
        call_method = method,
        call_headers =
          [(''Authorization'', ''Bearer '' @ access_token tokens),
           (''Content-Type'', ''application/json''),
           (''X-Restli-Protocol-Version'', ''2.0.0''),
           (''LinkedIn-Version'', ''202401'')],
        call_body = body\<rparr>]"
  unfolding request_def Let_def
  by (rule conforms_fetch) (auto simp: throw_def return_def split: sum.splits if_splits)

lemma conforms_getImageBuffer:
  "conforms (getImageBuffer source) w (if isLocalPath source then [] else [Other])"
proof (cases "isLocalPath source")
  case True
  then show ?thesis
    by (auto simp: getImageBuffer_def Let_def conforms_return conforms_throw
             conforms_def throw_def return_def issued_def phases_def all_ok_def
             split: option.splits)
next
  case False
  have "conforms (await (fetch \<lparr>call_url = source, call_method = GET, call_headers = [],
                      call_body = None\<rparr>)
          (\<lambda>response.
             if \<not> ok response
             then throw (Error (''Failed to fetch image: '' @ statusText response))
             else return (body_text response))) w
        [phase_of \<lparr>call_url = source, call_method = GET, call_headers = [],
                      call_body = None\<rparr>]"
    by (rule conforms_fetch) (auto simp: throw_def return_def)
  then show ?thesis using False
    by (simp add: getImageBuffer_def conforms_def phase_of_def)
qed


lemma await_checked:
  "await (fetch call) (\<lambda>r. if \<not> ok r then throw (e r) else k r)
     = await (await (fetch call) (\<lambda>r. if \<not> ok r then throw (e r) else return r)) k"
proof (rule ext)
  fix w
  obtain res w1 where f: "fetch call w = (res, w1)" by (cases "fetch call w")
  show "await (fetch call) (\<lambda>r. if \<not> ok r then throw (e r) else k r) w
     = await (await (fetch call) (\<lambda>r. if \<not> ok r then throw (e r) else return r)) k w"
  proof (cases res)
    case (Inl err)
    with f show ?thesis by (simp add: await_def)
  next
    case (Inr r)
    with f show ?thesis by (cases "ok r") (simp_all add: await_def throw_def return_def)
  qed
qed


lemma conforms_fetch_then:
  assumes "\<And>r w1. conforms (k r) w1 E2"
  shows "conforms (await (fetch call) (\<lambda>r. if \<not> ok r then throw (e r) else k r)) w
           (phase_of call # E2)"
proof -
  define K :: "fetch_response \<Rightarrow> fetch_response async"
    where "K = (\<lambda>r. if \<not> ok r then throw (e r) else return r)"
  have p: "snd (K r w1) = w1" for r w1
    by (simp add: K_def throw_def return_def)
  have f: "isl (fst (K r w1))" if "\<not> ok r" for r w1
    using that by (simp add: K_def throw_def)
  have "conforms (await (fetch call) K) w [phase_of call]"
    using p f by (rule conforms_fetch)
  then have "conforms (await (await (fetch call) K) k) w ([phase_of call] @ E2)"
    using assms by (rule conforms_await)
  moreover have "await (fetch call) (\<lambda>r. if \<not> ok r then throw (e r) else k r)
                   = await (await (fetch call) K) k"
    unfolding K_def by (rule await_checked)
  ultimately show ?thesis by simp
qed

lemma request_url:
  "\<not> startsWith ''http'' endpoint \<Longrightarrow>
   phase_of \<lparr>call_url = (if startsWith ''http'' endpoint then endpoint else API_BASE @ endpoint),
        call_method = POST, call_headers = h, call_body = b\<rparr>
   = (if API_BASE @ endpoint = ''https://api.linkedin.com/v2/ugcPosts'' then Publish
      else if API_BASE @ endpoint = ''https://api.linkedin.com/v2/assets?action=registerUpload''
      then Register else Other)"
  by (simp add: phase_of_def)

lemma conforms_registerImageUpload:
  "conforms (registerImageUpload tokens urn) w [Register]"
proof -
  have n: "\<not> startsWith ''http'' ''/assets?action=registerUpload''"
    by (simp add: startsWith_def)
  have "conforms (registerImageUpload tokens urn) w
     [if API_BASE @ ''/assets?action=registerUpload'' = ''https://api.linkedin.com/v2/ugcPosts''
      then Publish
      else if API_BASE @ ''/assets?action=registerUpload''
              = ''https://api.linkedin.com/v2/assets?action=registerUpload''
      then Register else Other]"
    unfolding registerImageUpload_def
    using conforms_request [of tokens "''/assets?action=registerUpload''" POST _ w]
    by (simp only: request_url [OF n])
  then show ?thesis by (simp add: API_BASE_def)
qed

lemma conforms_publish:
  "conforms (request tokens ''/ugcPosts'' POST body) w [Publish]"
proof -
  have n: "\<not> startsWith ''http'' ''/ugcPosts''"
    by (simp add: startsWith_def)
  have "conforms (request tokens ''/ugcPosts'' POST body) w
     [if API_BASE @ ''/ugcPosts'' = ''https://api.linkedin.com/v2/ugcPosts''
      then Publish
      else if API_BASE @ ''/ugcPosts''
              = ''https://api.linkedin.com/v2/assets?action=registerUpload''
      then Register else Other]"
    using conforms_request [of tokens "''/ugcPosts''" POST body w]
    by (simp only: request_url [OF n])
  then show ?thesis by (simp add: API_BASE_def)
qed


lemma conforms_upload_and_publish:
  "conforms (upload_and_publish tokens urn options imageUrl) w (pipeline imageUrl)"
proof -
  have tail: "conforms (await (fetch \<lparr>call_url = u, call_method = PUT,
                   call_headers = h, call_body = b\<rparr>)
       (\<lambda>uploadResponse.
          if \<not> ok uploadResponse
          then throw (Error (''Failed to upload image: '' @ statusText uploadResponse))
          else request tokens ''/ugcPosts'' POST body')) w1 [Transfer, Publish]"
    for u h b body' w1
  proof -
    have "phase_of \<lparr>call_url = u, call_method = PUT, call_headers = h, call_body = b\<rparr>
            = Transfer"
      by (simp add: phase_of_def)
    with conforms_fetch_then [of "\<lambda>r. request tokens ''/ugcPosts'' POST body'" "[Publish]"
        "\<lparr>call_url = u, call_method = PUT, call_headers = h, call_body = b\<rparr>"
        "\<lambda>r. Error (''Failed to upload image: '' @ statusText r)" w1]
      conforms_publish
    show ?thesis by simp
  qed
  have "conforms (upload_and_publish tokens urn options imageUrl) w
          ([Register] @ ([] @ ([] @ ((if isLocalPath imageUrl then [] else [Other])
           @ [Transfer, Publish]))))"
    unfolding upload_and_publish_def
    by (rule conforms_await, rule conforms_registerImageUpload,
        rule conforms_await, rule conforms_lift,
        rule conforms_await, rule conforms_lift,
        rule conforms_await, rule conforms_getImageBuffer, rule tail)
  then show ?thesis by (simp add: pipeline_def)
qed

lemma conforms_getMemberUrn: "conforms (getMemberUrn tokens) w [Other]"
proof -
  have u: "phase_of \<lparr>call_url = (if startsWith ''http'' USERINFO_URL then USERINFO_URL
                                   else API_BASE @ USERINFO_URL),
        call_method = GET,
        call_headers =
          [(''Authorization'', ''Bearer '' @ access_token tokens),
           (''Content-Type'', ''application/json''),
           (''X-Restli-Protocol-Version'', ''2.0.0''),
           (''LinkedIn-Version'', ''202401'')],
        call_body = None\<rparr> = Other"
    by (simp add: phase_of_def)
  have p: "conforms (getProfile tokens) w [Other]"
    unfolding getProfile_def using conforms_request [of tokens USERINFO_URL GET None w]
    by (simp only: u)
  have k: "conforms (case r of Inl e \<Rightarrow> throw e
                     | Inr sub \<Rightarrow>
                         (case template sub of
                            Inl e \<Rightarrow> throw e
                          | Inr shown \<Rightarrow> return (''urn:li:person:'' @ shown))) w1 []"
    for r :: "js_error + js" and w1
    by (cases r) (simp_all add: conforms_return conforms_throw split: sum.splits)
  have "conforms (getMemberUrn tokens) w ([Other] @ [])"
    unfolding getMemberUrn_def by (rule conforms_await, rule p, rule k)
  then show ?thesis by simp
qed

lemma createImagePost_steps:
  "createImagePost tokens options imageUrl =
     await (getMemberUrn tokens) (\<lambda>authorUrn. upload_and_publish tokens authorUrn options imageUrl)"
  by (simp add: createImagePost_def upload_and_publish_def)

lemma createOrganizationImagePost_steps:
  "createOrganizationImagePost tokens organizationId options imageUrl =
     upload_and_publish tokens (''urn:li:organization:'' @ organizationId) options imageUrl"
  by (simp add: createOrganizationImagePost_def upload_and_publish_def Let_def)

lemma conforms_createImagePost:
  "conforms (createImagePost tokens options imageUrl) w (Other # pipeline imageUrl)"
proof -
  have "conforms (createImagePost tokens options imageUrl) w ([Other] @ pipeline imageUrl)"
    unfolding createImagePost_steps
    by (rule conforms_await, rule conforms_getMemberUrn, rule conforms_upload_and_publish)
  then show ?thesis by simp
qed

lemma conforms_createOrganizationImagePost:
  "conforms (createOrganizationImagePost tokens organizationId options imageUrl) w
     (pipeline imageUrl)"
  unfolding createOrganizationImagePost_steps by (rule conforms_upload_and_publish)


lemma lift_world: "lift r w = (res, w') \<Longrightarrow> w' = w"
  by (cases r) (auto simp: lift_def throw_def return_def)

lemma getImageBuffer_missing:
  assumes "isLocalPath imageUrl"
    and "map_of (disk w) (expand_home (env_HOME w) imageUrl) = None"
  shows "getImageBuffer imageUrl w
           = (Inl (Error (''File not found: '' @ expand_home (env_HOME w) imageUrl)), w)"
  using assms by (simp add: getImageBuffer_def Let_def throw_def)

lemma conforms_upload_missing:
  assumes l: "isLocalPath imageUrl"
    and m: "map_of (disk w) (expand_home (env_HOME w) imageUrl) = None"
  shows "conforms (upload_and_publish tokens urn options imageUrl) w [Register]"
proof -
  have rest: "conforms
      (await (lift r1) (\<lambda>uploadUrl. await (lift r2) (\<lambda>asset.
         await (getImageBuffer imageUrl) (k uploadUrl asset)))) w1 []"
    if w1: "disk w1 = disk w" "env_HOME w1 = env_HOME w"
    for r1 r2 :: "js_error + js" and k :: "js \<Rightarrow> js \<Rightarrow> string \<Rightarrow> js async" and w1
  proof -
    have g: "conforms (await (getImageBuffer imageUrl) k') w' ([] @ [])"
      if "w' = w1" for k' :: "string \<Rightarrow> js async" and w'
    proof (rule conforms_await)
      show "conforms (getImageBuffer imageUrl) w' []"
        using conforms_getImageBuffer [of imageUrl w'] l by simp
    next
      fix x w2
      assume "getImageBuffer imageUrl w' = (Inr x, w2)"
      moreover have "map_of (disk w') (expand_home (env_HOME w') imageUrl) = None"
        using m w1 that by simp
      ultimately show "conforms (k' x) w2 []"
        using getImageBuffer_missing [OF l] by simp
    qed
    have "conforms
      (await (lift r1) (\<lambda>uploadUrl. await (lift r2) (\<lambda>asset.
         await (getImageBuffer imageUrl) (k uploadUrl asset)))) w1 ([] @ ([] @ ([] @ [])))"
    proof (rule conforms_await [OF conforms_lift])
      fix x wa
      assume "lift r1 w1 = (Inr x, wa)"
      then have wa: "wa = w1" by (rule lift_world)
      show "conforms (await (lift r2) (\<lambda>asset.
               await (getImageBuffer imageUrl) (k x asset))) wa ([] @ ([] @ []))"
      proof (rule conforms_await [OF conforms_lift])
        fix y wb
        assume "lift r2 wa = (Inr y, wb)"
        then have "wb = wa" by (rule lift_world)
        with wa have "wb = w1" by simp
        then show "conforms (await (getImageBuffer imageUrl) (k x y)) wb ([] @ [])"
          by (rule g)
      qed
    qed
    then show ?thesis by simp
  qed
  have "conforms (upload_and_publish tokens urn options imageUrl) w ([Register] @ [])"
    unfolding upload_and_publish_def
  proof (rule conforms_await [OF conforms_registerImageUpload])
    fix x w1
    assume r: "registerImageUpload tokens urn w = (Inr x, w1)"
    with conforms_registerImageUpload [of tokens urn w]
    have "disk w1 = disk w" "env_HOME w1 = env_HOME w"
      by (simp_all add: conforms_def)
    then show "conforms
      (await (lift (get_path x [''value'', ''uploadMechanism'',
               ''com.linkedin.digitalmedia.uploading.MediaUploadHttpRequest'', ''uploadUrl'']))
         (\<lambda>uploadUrl. await (lift (get_path x [''value'', ''asset''])) (\<lambda>asset.
           await (getImageBuffer imageUrl)
            (\<lambda>imageBuffer.
     await (fetch \<lparr>call_url = js_to_string uploadUrl, call_method = PUT,
                   call_headers =
                     [(''Authorization'', ''Bearer '' @ access_token tokens),
                      (''Content-Type'', ''application/octet-stream'')],
                   call_body = Some imageBuffer\<rparr>)
       (\<lambda>uploadResponse.
          if \<not> ok uploadResponse
          then throw (Error (''Failed to upload image: '' @ statusText uploadResponse))
          else request tokens ''/ugcPosts'' POST
                 (JSON_stringify (image_payload urn options asset))))))) w1 []"
      by (rule rest)
  qed
  then show ?thesis by simp
qed


lemma conforms_createImagePost_missing:
  assumes l: "isLocalPath imageUrl"
    and m: "map_of (disk w) (expand_home (env_HOME w) imageUrl) = None"
  shows "conforms (createImagePost tokens options imageUrl) w [Other, Register]"
proof -
  have "conforms (createImagePost tokens options imageUrl) w ([Other] @ [Register])"
    unfolding createImagePost_steps
  proof (rule conforms_await [OF conforms_getMemberUrn])
    fix urn w0
    assume "getMemberUrn tokens w = (Inr urn, w0)"
    with conforms_getMemberUrn [of tokens w]
    have "disk w0 = disk w" "env_HOME w0 = env_HOME w"
      by (simp_all add: conforms_def)
    with m have "map_of (disk w0) (expand_home (env_HOME w0) imageUrl) = None" by simp
    with l show "conforms (upload_and_publish tokens urn options imageUrl) w0 [Register]"
      by (rule conforms_upload_missing)
  qed
  then show ?thesis by simp
qed

lemma conforms_run:
  assumes "conforms m w E"
  shows "exchanges (snd (m w)) = exchanges w @ issued w (snd (m w))"
    and "prefix (phases (issued w (snd (m w)))) E"
    and "all_ok (butlast (issued w (snd (m w))))"
proof -
  obtain r w' where mw: "m w = (r, w')" by (cases "m w")
  with assms show "exchanges (snd (m w)) = exchanges w @ issued w (snd (m w))"
    by (simp add: conforms_def)
  from assms mw show "prefix (phases (issued w (snd (m w)))) E"
    by (cases r) (simp_all add: conforms_def)
  from assms mw show "all_ok (butlast (issued w (snd (m w))))"
    by (cases r) (simp_all add: conforms_def all_ok_butlast)
qed

lemma no_publish_after_failure:
  assumes p: "prefix (phases new) (E @ [Publish])"
    and e: "Publish \<notin> set E"
    and b: "all_ok (butlast new)"
    and f: "\<exists>(call, answer) \<in> set new. phase_of call \<noteq> Publish \<and> \<not> answered_ok answer"
  shows "Publish \<notin> set (phases new)"
proof -
  from f obtain call answer where in_new: "(call, answer) \<in> set new"
    and ph: "phase_of call \<noteq> Publish" and na: "\<not> answered_ok answer" by blast
  from na b have "(call, answer) \<notin> set (butlast new)"
    by (auto simp: all_ok_def list_all_iff)
  with in_new have ne: "new \<noteq> []" and la: "last new = (call, answer)"
    by (cases new rule: rev_cases; auto)+
  then have "last (phases new) = phase_of call"
    by (simp add: phases_def last_map)
  with ph have nl: "last (phases new) \<noteq> Publish" by simp
  from p have "phases new = E @ [Publish] \<or> prefix (phases new) E"
    by (simp add: prefix_snoc)
  then show ?thesis
  proof
    assume "phases new = E @ [Publish]"
    with nl show ?thesis by simp
  next
    assume "prefix (phases new) E"
    then have "set (phases new) \<subseteq> set E" by (rule set_mono_prefix)
    with e show ?thesis by blast
  qed
qed

lemma pipeline_snoc:
  "pipeline imageUrl
     = ([Register] @ (if isLocalPath imageUrl then [] else [Other]) @ [Transfer]) @ [Publish]"
  by (simp add: pipeline_def)

text \<open>
  C3. For every run of \<open>createImagePost\<close> and of \<open>createOrganizationImagePost\<close>: the
  run only adds exchanges, and their phases are the first ones of the pipeline, in its
  order (for \<open>createImagePost\<close> after the identity lookup): registration comes before
  transfer, transfer before publication. If an exchange other than the publication got no
  success status (the download of the image, or the PUT to the upload URL), or if the
  image is a local file that does not exist, the publication request is not issued.
\<close>

theorem image_pipeline_order_and_abort:
  "exchanges (snd (createImagePost tokens options imageUrl w))
     = exchanges w @ issued w (snd (createImagePost tokens options imageUrl w))
   \<and> prefix (phases (issued w (snd (createImagePost tokens options imageUrl w))))
        (Other # pipeline imageUrl)
   \<and> ((\<exists>(call, answer) \<in> set (issued w (snd (createImagePost tokens options imageUrl w))).
          phase_of call \<noteq> Publish \<and> \<not> answered_ok answer) \<longrightarrow>
        Publish \<notin> set (phases (issued w (snd (createImagePost tokens options imageUrl w)))))
   \<and> (isLocalPath imageUrl \<and> map_of (disk w) (expand_home (env_HOME w) imageUrl) = None \<longrightarrow>
        Transfer \<notin> set (phases (issued w (snd (createImagePost tokens options imageUrl w))))
        \<and> Publish \<notin> set (phases (issued w (snd (createImagePost tokens options imageUrl w)))))
   \<and> exchanges (snd (createOrganizationImagePost tokens organizationId options imageUrl w))
     = exchanges w
       @ issued w (snd (createOrganizationImagePost tokens organizationId options imageUrl w))
   \<and> prefix (phases (issued w
                (snd (createOrganizationImagePost tokens organizationId options imageUrl w))))
        (pipeline imageUrl)
   \<and> ((\<exists>(call, answer) \<in> set (issued w
            (snd (createOrganizationImagePost tokens organizationId options imageUrl w))).
          phase_of call \<noteq> Publish \<and> \<not> answered_ok answer) \<longrightarrow>
        Publish \<notin> set (phases (issued w
            (snd (createOrganizationImagePost tokens organizationId options imageUrl w)))))
   \<and> (isLocalPath imageUrl \<and> map_of (disk w) (expand_home (env_HOME w) imageUrl) = None \<longrightarrow>
        Transfer \<notin> set (phases (issued w
            (snd (createOrganizationImagePost tokens organizationId options imageUrl w))))
        \<and> Publish \<notin> set (phases (issued w
            (snd (createOrganizationImagePost tokens organizationId options imageUrl w)))))"
proof -
  let ?new = "issued w (snd (createImagePost tokens options imageUrl w))"
  let ?org = "issued w
     (snd (createOrganizationImagePost tokens organizationId options imageUrl w))"
  note p = conforms_run [OF conforms_createImagePost [of tokens options imageUrl w]]
  note o = conforms_run
    [OF conforms_createOrganizationImagePost [of tokens organizationId options imageUrl w]]
  have p3: "Publish \<notin> set (phases ?new)"
    if "\<exists>(call, answer) \<in> set ?new. phase_of call \<noteq> Publish \<and> \<not> answered_ok answer"
  proof (rule no_publish_after_failure [OF _ _ p(3) that])
    show "prefix (phases ?new)
            ((Other # [Register] @ (if isLocalPath imageUrl then [] else [Other]) @ [Transfer])
             @ [Publish])"
      using p(2) by (simp add: pipeline_def)
    show "Publish \<notin> set (Other # [Register]
            @ (if isLocalPath imageUrl then [] else [Other]) @ [Transfer])"
      by simp
  qed
  have o3: "Publish \<notin> set (phases ?org)"
    if "\<exists>(call, answer) \<in> set ?org. phase_of call \<noteq> Publish \<and> \<not> answered_ok answer"
  proof (rule no_publish_after_failure [OF _ _ o(3) that])
    show "prefix (phases ?org)
            (([Register] @ (if isLocalPath imageUrl then [] else [Other]) @ [Transfer])
             @ [Publish])"
      using o(2) by (simp add: pipeline_def)
    show "Publish \<notin> set ([Register]
            @ (if isLocalPath imageUrl then [] else [Other]) @ [Transfer])"
      by simp
  qed
  have p4: "Transfer \<notin> set (phases ?new) \<and> Publish \<notin> set (phases ?new)"
    if "isLocalPath imageUrl \<and> map_of (disk w) (expand_home (env_HOME w) imageUrl) = None"
  proof -
    from that have "conforms (createImagePost tokens options imageUrl) w [Other, Register]"
      by (simp add: conforms_createImagePost_missing)
    then have "prefix (phases ?new) [Other, Register]" by (rule conforms_run(2))
    then have "set (phases ?new) \<subseteq> set [Other, Register]" by (rule set_mono_prefix)
    then show ?thesis by auto
  qed
  have o4: "Transfer \<notin> set (phases ?org) \<and> Publish \<notin> set (phases ?org)"
    if "isLocalPath imageUrl \<and> map_of (disk w) (expand_home (env_HOME w) imageUrl) = None"
  proof -
    from that have
      "conforms (createOrganizationImagePost tokens organizationId options imageUrl) w [Register]"
      by (simp add: createOrganizationImagePost_steps conforms_upload_missing)
    then have "prefix (phases ?org) [Register]" by (rule conforms_run(2))
    then have "set (phases ?org) \<subseteq> set [Register]" by (rule set_mono_prefix)
    then show ?thesis by auto
  qed
  from p(1) p(2) p3 p4 o(1) o(2) o3 o4 show ?thesis by blast
qed

theorem image_pipeline_order_and_abort_witness:
  "phases (issued (world_of [profile_answer, register_answer,
                             response_of 500 ''Internal Server Error'' [], created_answer])
       (snd (createImagePost token3600 hi_options ''/tmp/pic.png''
          (world_of [profile_answer, register_answer,
                     response_of 500 ''Internal Server Error'' [], created_answer]))))
     = [Other, Register, Transfer]
   \<and> Publish \<notin> set (phases (issued (world_of [profile_answer, register_answer,
                             response_of 500 ''Internal Server Error'' [], created_answer])
       (snd (createImagePost token3600 hi_options ''/tmp/pic.png''
          (world_of [profile_answer, register_answer,
                     response_of 500 ''Internal Server Error'' [], created_answer])))))
   \<and> isLocalPath ''~/missing.png''
   \<and> map_of (disk (world_of [register_answer, created_answer]))
        (expand_home (env_HOME (world_of [register_answer, created_answer]))
           ''~/missing.png'') = None
   \<and> phases (issued (world_of [register_answer, created_answer])
       (snd (createOrganizationImagePost token3600 ''777'' hi_options ''~/missing.png''
          (world_of [register_answer, created_answer]))))
     = [Register]
   \<and> Publish \<notin> set (phases (issued (world_of [register_answer, created_answer])
       (snd (createOrganizationImagePost token3600 ''777'' hi_options ''~/missing.png''
          (world_of [register_answer, created_answer])))))
   \<and> phases (issued (world_of [profile_answer, register_answer,
                             response_of 201 ''Created'' [], created_answer])
       (snd (createImagePost token3600 hi_options ''/tmp/pic.png''
          (world_of [profile_answer, register_answer,
                     response_of 201 ''Created'' [], created_answer]))))
     = [Other, Register, Transfer, Publish]"
proof -
  let ?w = "world_of [profile_answer, register_answer,
                      response_of 500 ''Internal Server Error'' [], created_answer]"
  let ?v = "world_of [register_answer, created_answer]"
  let ?u = "world_of [profile_answer, register_answer,
                      response_of 201 ''Created'' [], created_answer]"
  let ?new = "issued ?w (snd (createImagePost token3600 hi_options ''/tmp/pic.png'' ?w))"
  have ph: "phases ?new = [Other, Register, Transfer]"
    by code_simp
  have "list_ex (\<lambda>(call, answer). phase_of call \<noteq> Publish \<and> \<not> answered_ok answer) ?new"
    by code_simp
  then have bad:
    "\<exists>(call, answer) \<in> set ?new. phase_of call \<noteq> Publish \<and> \<not> answered_ok answer"
    by (simp only: list_ex_iff)
  have l: "isLocalPath ''~/missing.png''" by code_simp
  have m: "map_of (disk ?v) (expand_home (env_HOME ?v) ''~/missing.png'') = None"
    by code_simp
  have full: "phases (issued ?u (snd (createImagePost token3600 hi_options ''/tmp/pic.png'' ?u)))
     = [Other, Register, Transfer, Publish]"
    by code_simp
  have org: "phases (issued ?v
       (snd (createOrganizationImagePost token3600 ''777'' hi_options ''~/missing.png'' ?v)))
     = [Register]"
    by code_simp
  from image_pipeline_order_and_abort [of token3600 hi_options "''/tmp/pic.png''" ?w] bad
  have "Publish \<notin> set (phases ?new)" by blast
  moreover
  from image_pipeline_order_and_abort [of token3600 hi_options "''~/missing.png''" ?v "''777''"]
    l m
  have "Publish \<notin> set (phases (issued ?v
       (snd (createOrganizationImagePost token3600 ''777'' hi_options ''~/missing.png'' ?v))))"
    by blast
  ultimately show ?thesis using ph l m full org by blast
qed

section \<open>Properties of the credential store\<close>

lemma tokens_readback: "as_OAuthTokens (jsonify (OAuthTokens_js tokens)) = Some tokens"
  by (cases "refresh_token tokens"; cases "refresh_token_expires_in tokens")
     (simp_all add: as_OAuthTokens_def OAuthTokens_js_def)

lemma tokens_text:
  "\<exists>content. JSON_stringify_2 (OAuthTokens_js tokens) = Some content
     \<and> JSON_parse content = Inr (jsonify (OAuthTokens_js tokens))"
proof -
  obtain content where c: "serialize ''  '' [] (OAuthTokens_js tokens) = Some content"
    by (simp add: OAuthTokens_js_def)
  have b: "blank ''  ''" by (simp add: is_ws_def)
  have "whole (OAuthTokens_js tokens)"
    by (simp add: OAuthTokens_js_def split: option.splits)
  with c b have "JSON_parse content = Inr (jsonify (OAuthTokens_js tokens))"
    by (rule JSON_parse_stringify)
  with c show ?thesis by (simp add: JSON_stringify_2_def)
qed


lemma writeFileSync_result:
  "writeFileSync p content fs = Inr fs' \<Longrightarrow> fs' = fs(p \<mapsto> File content)"
  by (auto simp: writeFileSync_def split: if_splits)

lemma load_primary:
  assumes "fs (homeDir @ [''.clawdbot'', ''credentials'', ''linkedin.json'']) = Some (File content)"
  shows "loadTokens homeDir fs = JSON_parse content"
  using assms by (simp add: loadTokens_def existsSync_def readFileSync_def)

lemma load_legacy:
  assumes "fs (homeDir @ [''.clawdbot'', ''credentials'', ''linkedin.json'']) = None"
    and "fs (homeDir @ [''.moltbot'', ''credentials'', ''linkedin.json'']) = Some (File content)"
  shows "loadTokens homeDir fs = JSON_parse content"
  using assms by (simp add: loadTokens_def existsSync_def readFileSync_def)

lemma save_then_load:
  assumes wf: "well_formed fs"
    and save: "saveTokens homeDir tokens fs = Inr fs'"
  shows "loadTokens homeDir fs' = Inr (jsonify (OAuthTokens_js tokens))"
proof -
  let ?c = "homeDir @ [''.clawdbot'', ''credentials'']"
  let ?m = "homeDir @ [''.moltbot'', ''credentials'']"
  let ?cp = "homeDir @ [''.clawdbot'', ''credentials'', ''linkedin.json'']"
  let ?mp = "homeDir @ [''.moltbot'', ''credentials'', ''linkedin.json'']"
  obtain content where c: "JSON_stringify_2 (OAuthTokens_js tokens) = Some content"
    and p: "JSON_parse content = Inr (jsonify (OAuthTokens_js tokens))"
    using tokens_text by blast
  have paths: "?c @ [''linkedin.json''] = ?cp" "?m @ [''linkedin.json''] = ?mp"
    "butlast ?cp = ?c" "?cp \<noteq> ?mp"
    by (simp_all add: butlast_append)
  consider (primary) "fs ?c \<noteq> None" | (legacy) "fs ?c = None" "fs ?m \<noteq> None"
    | (fresh) "fs ?c = None" "fs ?m = None"
    by blast
  then show ?thesis
  proof cases
    case primary
    then have "writeFileSync ?cp content fs = Inr fs'"
      using save c by (auto simp: saveTokens_def getCredentialsDir_def existsSync_def Let_def)
    then have "fs' = fs(?cp \<mapsto> File content)" by (rule writeFileSync_result)
    then have "fs' ?cp = Some (File content)" by simp
    then show ?thesis using p by (simp add: load_primary)
  next
    case legacy
    then have "writeFileSync ?mp content fs = Inr fs'"
      using save c by (auto simp: saveTokens_def getCredentialsDir_def existsSync_def Let_def)
    then have fs': "fs' = fs(?mp \<mapsto> File content)" by (rule writeFileSync_result)
    have "fs ?cp = None"
    proof (rule ccontr)
      assume "fs ?cp \<noteq> None"
      moreover have "butlast ?cp \<noteq> []" by (simp add: butlast_append)
      ultimately have "fs (butlast ?cp) = Some Dir" using wf by (simp add: well_formed_def)
      then show False using legacy(1) by (simp add: butlast_append)
    qed
    then have "fs' ?cp = None" using fs' by simp
    moreover have "fs' ?mp = Some (File content)" using fs' by simp
    ultimately show ?thesis using p by (simp add: load_legacy)
  next
    case fresh
    then obtain fs1 where "writeFileSync ?cp content fs1 = Inr fs'"
      using save c
      by (auto simp: saveTokens_def getCredentialsDir_def existsSync_def Let_def
          split: sum.splits)
    then have "fs' = fs1(?cp \<mapsto> File content)" by (rule writeFileSync_result)
    then have "fs' ?cp = Some (File content)" by simp
    then show ?thesis using p by (simp add: load_primary)
  qed
qed


lemma wf_legacy: "well_formed legacy_home"
  by (auto simp: well_formed_def legacy_home_def split: if_splits)

lemma wf_bare: "well_formed bare_home"
  by (auto simp: well_formed_def bare_home_def split: if_splits)

lemma wf_primary: "well_formed primary_home"
  by (auto simp: well_formed_def primary_home_def split: if_splits)

lemma save_legacy: "\<exists>fs'. saveTokens [''home'', ''ada''] refreshable_token legacy_home = Inr fs'"
  by (simp add: saveTokens_def getCredentialsDir_def existsSync_def legacy_home_def Let_def
      writeFileSync_def JSON_stringify_2_def OAuthTokens_js_def)

lemma save_bare: "\<exists>fs'. saveTokens [''home'', ''ada''] refreshable_token bare_home = Inr fs'"
  by (simp add: saveTokens_def getCredentialsDir_def existsSync_def bare_home_def Let_def
      writeFileSync_def JSON_stringify_2_def OAuthTokens_js_def mkdirSync_recursive_def
      ancestors_def is_file_def upt_rec)

lemma save_primary: "\<exists>fs'. saveTokens [''home'', ''ada''] token3600 primary_home = Inr fs'"
  by (simp add: saveTokens_def getCredentialsDir_def existsSync_def primary_home_def Let_def
      writeFileSync_def JSON_stringify_2_def OAuthTokens_js_def)

text \<open>
  C5. For every credential record and every file system, whichever of the two storage
  roots exist in it: when \<open>saveTokens\<close> has written the record, \<open>loadTokens\<close> returns
  the object that \<open>JSON.parse\<close> makes of the file, and that object is the saved record
  in all its fields, the optional ones included.
\<close>

theorem save_then_load_roundtrip:
  assumes "well_formed fs"
    and "saveTokens homeDir tokens fs = Inr fs'"
  shows "loadTokens homeDir fs' = Inr (jsonify (OAuthTokens_js tokens))
     \<and> as_OAuthTokens (jsonify (OAuthTokens_js tokens)) = Some tokens"
  using save_then_load [OF assms] tokens_readback by simp

theorem save_then_load_roundtrip_witness:
  "well_formed legacy_home
   \<and> save_and_load [''home'', ''ada''] refreshable_token legacy_home
       = Inr (jsonify (OAuthTokens_js refreshable_token))
   \<and> well_formed bare_home
   \<and> save_and_load [''home'', ''ada''] refreshable_token bare_home
       = Inr (jsonify (OAuthTokens_js refreshable_token))
   \<and> as_OAuthTokens (jsonify (OAuthTokens_js refreshable_token)) = Some refreshable_token
   \<and> well_formed primary_home
   \<and> save_and_load [''home'', ''ada''] token3600 primary_home
       = Inr (jsonify (OAuthTokens_js token3600))
   \<and> as_OAuthTokens (jsonify (OAuthTokens_js token3600)) = Some token3600"
proof -
  obtain fl where fl: "saveTokens [''home'', ''ada''] refreshable_token legacy_home = Inr fl"
    using save_legacy by blast
  obtain fb where fb: "saveTokens [''home'', ''ada''] refreshable_token bare_home = Inr fb"
    using save_bare by blast
  obtain fp where fp: "saveTokens [''home'', ''ada''] token3600 primary_home = Inr fp"
    using save_primary by blast
  from save_then_load_roundtrip [OF wf_legacy fl] fl
  have l: "save_and_load [''home'', ''ada''] refreshable_token legacy_home
             = Inr (jsonify (OAuthTokens_js refreshable_token))"
    and r: "as_OAuthTokens (jsonify (OAuthTokens_js refreshable_token)) = Some refreshable_token"
    by (simp_all add: save_and_load_def)
  from save_then_load_roundtrip [OF wf_bare fb] fb
  have b: "save_and_load [''home'', ''ada''] refreshable_token bare_home
             = Inr (jsonify (OAuthTokens_js refreshable_token))"
    by (simp add: save_and_load_def)
  from save_then_load_roundtrip [OF wf_primary fp] fp
  have p: "save_and_load [''home'', ''ada''] token3600 primary_home
             = Inr (jsonify (OAuthTokens_js token3600))"
    and q: "as_OAuthTokens (jsonify (OAuthTokens_js token3600)) = Some token3600"
    by (simp_all add: save_and_load_def)
  from l r b p q wf_legacy wf_bare wf_primary show ?thesis by blast
qed

end
